theory Spec2Isabelle
  imports Complex_Main "HOL-Library.Word"
begin

section \<open>StreamAudioPlayer: data model\<close>

text \<open>
  The class \<^verbatim>\<open>StreamAudioPlayer\<close> of \<^verbatim>\<open>stream-audio-player.ts\<close> is embedded as a
  record of its private fields and one HOL function per method. JavaScript numbers that
  hold times, rates and samples are modelled as real numbers: every sample the decoder
  produces is \<open>k / 32768\<close> for a 16-bit \<open>k\<close>, which a Float32 holds exactly; times and
  durations are idealised (no rounding of doubles).

  The Web Audio objects the class talks to are records of the attributes the class reads
  or writes. \<^verbatim>\<open>createBuffer\<close> rejects what the platform rejects (no frames, a sample
  rate that is not positive or not supported) and \<^verbatim>\<open>close\<close> rejects a context that is
  already closing; \<^verbatim>\<open>createBufferSource\<close>, \<^verbatim>\<open>connect\<close>, \<^verbatim>\<open>start\<close>,
  \<^verbatim>\<open>resume\<close> and \<^verbatim>\<open>suspend\<close> are taken to succeed. The limit of the run time's
  call stack is not modelled.
\<close>

text \<open>Exceptions of the run time: \<^verbatim>\<open>new Error(msg)\<close>, a \<^verbatim>\<open>DOMException\<close> by name,
  \<^verbatim>\<open>RangeError\<close> and \<^verbatim>\<open>TypeError\<close>.\<close>

datatype exn = Error string | DOMException string | RangeError | TypeError

text \<open>\<^verbatim>\<open>AudioBuffer\<close>: \<open>frames\<close> is its \<^verbatim>\<open>length\<close> attribute, \<open>channel0\<close> the data of
  channel 0 (the class only ever creates mono buffers).\<close>

record audio_buffer =
  numberOfChannels :: nat
  frames :: nat
  sampleRate :: real
  channel0 :: "real list"

text \<open>\<^verbatim>\<open>AudioBuffer.duration\<close>: length over sample rate.\<close>

definition duration :: "audio_buffer \<Rightarrow> real" where
  "duration b = real (frames b) / sampleRate b"

datatype context_state = Suspended | Running | Closed

text \<open>
  \<^verbatim>\<open>AudioContext\<close>. The audio thread moves the device clock on its own, and every read
  of \<^verbatim>\<open>currentTime\<close> shows where it got to. \<open>currentTime\<close> is what the attribute
  showed last, and \<open>upcoming\<close> lists the times the clock will have reached at the next
  reads, in order: an empty list is a clock that stands still, and a time below the one
  shown last is raised to it (the clock never runs backwards). \<open>ctx_state\<close> is the
  \<^verbatim>\<open>state\<close> attribute, \<open>closing\<close> says that \<^verbatim>\<open>close()\<close> was called, and \<open>rate_min\<close>
  and \<open>rate_max\<close> bound the sample rates that this implementation's
  \<^verbatim>\<open>createBuffer\<close> accepts.
\<close>

record audio_context =
  currentTime :: real
  ctx_state :: context_state
  closing :: bool
  upcoming :: "real list"
  rate_min :: real
  rate_max :: real

text \<open>A read of \<^verbatim>\<open>audioContext.currentTime\<close>: the value read, and the context after
  the read.\<close>

definition currentTime_read :: "audio_context \<Rightarrow> real" where
  "currentTime_read ctx =
     (case upcoming ctx of [] \<Rightarrow> currentTime ctx | t # _ \<Rightarrow> max (currentTime ctx) t)"

definition after_read :: "audio_context \<Rightarrow> audio_context" where
  "after_read ctx = ctx\<lparr>currentTime := currentTime_read ctx, upcoming := tl (upcoming ctx)\<rparr>"

text \<open>\<^verbatim>\<open>AudioBufferSourceNode\<close>. \<open>node_id\<close> is the identity of the object (what
  \<^verbatim>\<open>indexOf\<close> compares); \<open>start_at\<close> is the argument of \<^verbatim>\<open>start\<close> once it was called.\<close>

record source_node =
  node_id :: nat
  buffer :: "audio_buffer option"
  connected :: bool
  start_at :: "real option"
  stopped :: bool

datatype player_state = Idle | Playing | Paused | Ended | Resetting

text \<open>A listener is an opaque callback, named by a number. Listeners are taken not to
  call back into the player while they run.\<close>

type_synonym listener = nat

text \<open>
  The fields of the class, and three fields for what the class does to its environment:
  \<open>allocated\<close> counts the source nodes created so far (the identity of the next one),
  \<open>notified\<close> has one entry per \<^verbatim>\<open>dispatchEvent(new Event('ended'))\<close>, the listeners
  invoked in order, and \<open>console\<close> collects the \<^verbatim>\<open>console.error\<close> lines.
  \<open>eventTarget\<close> is the \<^verbatim>\<open>EventTarget\<close>: its listeners for \<^verbatim>\<open>'ended'\<close> in
  registration order.
\<close>

record player =
  audioContext :: "audio_context option"
  audioBufferQueue :: "audio_buffer list"
  internalState :: player_state
  nextStartTime :: real
  scheduledBufferSources :: "source_node list"
  eventTarget :: "listener list"
  allocated :: nat
  notified :: "listener list list"
  console :: "string list"

text \<open>The constructor: \<^verbatim>\<open>initAudioContext()\<close> on a null field, then a new
  \<^verbatim>\<open>EventTarget\<close>. The context the platform hands out is a parameter.\<close>

definition initAudioContext :: "audio_context \<Rightarrow> player \<Rightarrow> player" where
  "initAudioContext fresh s =
     (case audioContext s of
        None \<Rightarrow> s\<lparr>audioContext := Some fresh\<rparr>
      | Some _ \<Rightarrow> s)"

definition init :: "audio_context \<Rightarrow> player" where
  "init fresh =
     initAudioContext fresh
       \<lparr>audioContext = None, audioBufferQueue = [], internalState = Idle,
        nextStartTime = 0, scheduledBufferSources = [], eventTarget = [],
        allocated = 0, notified = [], console = []\<rparr>"

section \<open>Decoding a chunk\<close>

subsection \<open>\<^verbatim>\<open>atob\<close>\<close>

text \<open>
  \<^verbatim>\<open>atob\<close> is the platform's forgiving base64 decoder: ASCII whitespace is dropped, one
  or two trailing \<^verbatim>\<open>=\<close> are dropped when the length is a multiple of four, a length of
  1 modulo 4 or a character outside the alphabet raises \<^verbatim>\<open>InvalidCharacterError\<close>, and
  each character contributes six bits, the spare bits of an incomplete last group being
  discarded. The result is a binary string: one character per byte.
\<close>

definition is_ascii_whitespace :: "char \<Rightarrow> bool" where
  "is_ascii_whitespace c = (of_char c \<in> {9, 10, 12, 13, 32 :: nat})"

definition base64_value :: "char \<Rightarrow> nat option" where
  "base64_value c =
     (let n = (of_char c :: nat) in
      if 65 \<le> n \<and> n \<le> 90 then Some (n - 65)
      else if 97 \<le> n \<and> n \<le> 122 then Some (n - 71)
      else if 48 \<le> n \<and> n \<le> 57 then Some (n + 4)
      else if n = 43 then Some 62
      else if n = 47 then Some 63
      else None)"

fun sextets_to_bytes :: "nat list \<Rightarrow> nat list" where
  "sextets_to_bytes (a # b # c # d # rest) =
     (a * 4 + b div 16) # ((b mod 16) * 16 + c div 4) # ((c mod 4) * 64 + d)
       # sextets_to_bytes rest"
| "sextets_to_bytes [a, b, c] = [a * 4 + b div 16, (b mod 16) * 16 + c div 4]"
| "sextets_to_bytes [a, b] = [a * 4 + b div 16]"
| "sextets_to_bytes _ = []"

definition strip_padding :: "string \<Rightarrow> string" where
  "strip_padding d =
     (if length d mod 4 = 0 \<and> d \<noteq> [] \<and> last d = CHR ''=''
      then (if butlast d \<noteq> [] \<and> last (butlast d) = CHR ''=''
            then butlast (butlast d) else butlast d)
      else d)"

definition atob :: "string \<Rightarrow> exn + string" where
  "atob base64Data =
     (let d = strip_padding (filter (\<lambda>c. \<not> is_ascii_whitespace c) base64Data) in
      if length d mod 4 = 1 \<or> (\<exists>c \<in> set d. base64_value c = None)
      then Inl (DOMException ''InvalidCharacterError'')
      else Inr (map char_of (sextets_to_bytes (map (\<lambda>c. the (base64_value c)) d))))"

subsection \<open>Typed arrays\<close>

text \<open>\<^verbatim>\<open>bytes[i] = binaryString.charCodeAt(i)\<close> on a \<^verbatim>\<open>Uint8Array\<close>.\<close>

definition Uint8Array_of :: "string \<Rightarrow> 8 word list" where
  "Uint8Array_of binaryString = map (\<lambda>c. word_of_nat (of_char c)) binaryString"

text \<open>\<^verbatim>\<open>new Int16Array(bytes.buffer)\<close>: a view of the same bytes as 16-bit words, low
  byte first (the byte order of the platform, little-endian wherever browsers run); a byte
  length that is not a multiple of 2 raises \<^verbatim>\<open>RangeError\<close>.\<close>

fun int16_view :: "8 word list \<Rightarrow> 16 word list" where
  "int16_view (lo # hi # rest) = word_cat hi lo # int16_view rest"
| "int16_view _ = []"

definition Int16Array_of :: "8 word list \<Rightarrow> exn + 16 word list" where
  "Int16Array_of bytes =
     (if length bytes mod 2 \<noteq> 0 then Inl RangeError else Inr (int16_view bytes))"

text \<open>\<^verbatim>\<open>target.set(source)\<close> on typed arrays: copies \<open>source\<close> to the front of
  \<open>target\<close>; a source longer than the target raises \<^verbatim>\<open>RangeError\<close>.\<close>

definition typed_array_set :: "real list \<Rightarrow> real list \<Rightarrow> exn + real list" where
  "typed_array_set source target =
     (if length target < length source then Inl RangeError
      else Inr (source @ drop (length source) target))"

text \<open>\<^verbatim>\<open>audioContext.createBuffer(channels, length, sampleRate)\<close>: a silent buffer.
  The platform raises \<^verbatim>\<open>NotSupportedError\<close> for no channels, for no frames, and for a
  sample rate that is zero, negative or outside the range it supports.\<close>

definition createBuffer :: "audio_context \<Rightarrow> nat \<Rightarrow> nat \<Rightarrow> real \<Rightarrow> exn + audio_buffer" where
  "createBuffer ctx channels len rate =
     (if channels = 0 \<or> len = 0 \<or> rate \<le> 0 \<or> rate < rate_min ctx \<or> rate_max ctx < rate
      then Inl (DOMException ''NotSupportedError'')
      else Inr \<lparr>numberOfChannels = channels, frames = len, sampleRate = rate,
                channel0 = replicate len 0\<rparr>)"

subsection \<open>\<^verbatim>\<open>convertBase64ToAudioBuffer\<close> and \<^verbatim>\<open>addChunk\<close>\<close>

definition convertBase64ToAudioBuffer :: "player \<Rightarrow> string \<Rightarrow> real \<Rightarrow> exn + audio_buffer" where
  "convertBase64ToAudioBuffer s base64Data rate =
     (case audioContext s of
        None \<Rightarrow> Inl (Error ''AudioContext not initialized'')
      | Some ctx \<Rightarrow>
          (case atob base64Data of
             Inl e \<Rightarrow> Inl e
           | Inr binaryString \<Rightarrow>
               (case Int16Array_of (Uint8Array_of binaryString) of
                  Inl e \<Rightarrow> Inl e
                | Inr int16Array \<Rightarrow>
                    (let float32Array = map (\<lambda>w. real_of_int (sint w) / 32768) int16Array
                     in case createBuffer ctx 1 (length float32Array) rate of
                          Inl e \<Rightarrow> Inl e
                        | Inr audioBuffer \<Rightarrow>
                            (case typed_array_set float32Array (channel0 audioBuffer) of
                               Inl e \<Rightarrow> Inl e
                             | Inr data \<Rightarrow> Inr (audioBuffer\<lparr>channel0 := data\<rparr>))))))"

text \<open>A method returns the exception it raised, if any, and the player as it left it.
  (\<^verbatim>\<open>addChunk\<close> is \<^verbatim>\<open>async\<close> without an \<^verbatim>\<open>await\<close>: its body runs at the call, and an
  exception rejects the promise it returns.) The sample rate is always passed; the source's
  default of 24000 is the caller's \<open>rate = 24000\<close>.\<close>

definition addChunk :: "string \<Rightarrow> real \<Rightarrow> player \<Rightarrow> exn option \<times> player" where
  "addChunk base64Data rate s =
     (if internalState s = Resetting
      then (Some (Error ''Cannot add chunk while resetting''), s)
      else (case convertBase64ToAudioBuffer s base64Data rate of
              Inl e \<Rightarrow> (Some e, s)
            | Inr audioBuffer \<Rightarrow>
                (None, s\<lparr>audioBufferQueue := audioBufferQueue s @ [audioBuffer]\<rparr>)))"

text \<open>The failure classes of the specification, read onto the exceptions \<^verbatim>\<open>addChunk\<close>
  can raise: the guard's error is the specification's \<^verbatim>\<open>InvalidStateError\<close>; an unreadable
  or misaligned payload and a missing audio context are its \<^verbatim>\<open>DecodeError\<close>.\<close>

datatype failure_class = DecodeError | InvalidStateError | PlaybackError

definition addChunk_failure_class :: "exn \<Rightarrow> failure_class option" where
  "addChunk_failure_class e =
     (if e = Error ''Cannot add chunk while resetting'' then Some InvalidStateError
      else if e = RangeError \<or> e = DOMException ''InvalidCharacterError''
              \<or> e = Error ''AudioContext not initialized'' then Some DecodeError
      else None)"


section \<open>The scheduler\<close>

text \<open>\<^verbatim>\<open>audioContext.createBufferSource()\<close>: a new node.\<close>

definition createBufferSource :: "player \<Rightarrow> source_node" where
  "createBufferSource s =
     \<lparr>node_id = allocated s, buffer = None, connected = False, start_at = None,
      stopped = False\<rparr>"

text \<open>
  \<^verbatim>\<open>scheduleNextBufferSource\<close> calls itself while the queue is not empty; each call
  takes one buffer off the queue and reads the device clock afresh, so the clock can move
  between the calls of one pass.
\<close>

function scheduleNextBufferSource :: "player \<Rightarrow> player" where
  "scheduleNextBufferSource s =
     (case audioContext s of
        None \<Rightarrow> s
      | Some ctx \<Rightarrow>
          if audioBufferQueue s = [] \<or> internalState s \<noteq> Playing then s
          else
            (let audioBuffer = hd (audioBufferQueue s);
                 source = (createBufferSource s)\<lparr>buffer := Some audioBuffer, connected := True\<rparr>;
                 startTime = max (nextStartTime s) (currentTime_read ctx);
                 s' = s\<lparr>audioContext := Some (after_read ctx),
                        audioBufferQueue := tl (audioBufferQueue s),
                        allocated := Suc (allocated s),
                        nextStartTime := startTime + duration audioBuffer,
                        scheduledBufferSources :=
                          scheduledBufferSources s @ [source\<lparr>start_at := Some startTime\<rparr>]\<rparr>
             in if audioBufferQueue s' \<noteq> [] then scheduleNextBufferSource s' else s'))"
  by pat_completeness auto
termination
  by (relation "measure (\<lambda>s. length (audioBufferQueue s))") auto

declare scheduleNextBufferSource.simps [simp del]

text \<open>\<^verbatim>\<open>dispatchEvent\<close>: the listeners of the current \<^verbatim>\<open>EventTarget\<close> are invoked.\<close>

definition dispatchEvent :: "player \<Rightarrow> player" where
  "dispatchEvent s = s\<lparr>notified := notified s @ [eventTarget s]\<rparr>"

text \<open>\<^verbatim>\<open>indexOf\<close> compares objects by identity; \<open>None\<close> stands for \<open>-1\<close>.\<close>

fun indexOf :: "source_node list \<Rightarrow> source_node \<Rightarrow> nat option" where
  "indexOf [] x = None"
| "indexOf (y # ys) x =
     (if node_id y = node_id x then Some 0 else map_option Suc (indexOf ys x))"

text \<open>\<^verbatim>\<open>splice(index, 1)\<close>.\<close>

definition splice1 :: "nat \<Rightarrow> 'a list \<Rightarrow> 'a list" where
  "splice1 i xs = take i xs @ drop (Suc i) xs"

text \<open>The \<^verbatim>\<open>onended\<close> callback that \<^verbatim>\<open>scheduleNextBufferSource\<close> installs on
  \<open>source\<close>, run when the device reports the node finished.\<close>

definition onended :: "source_node \<Rightarrow> player \<Rightarrow> player" where
  "onended source s =
     (if internalState s = Resetting then s
      else
        (let s1 = (case indexOf (scheduledBufferSources s) source of
                     None \<Rightarrow> s
                   | Some index \<Rightarrow>
                       s\<lparr>scheduledBufferSources := splice1 index (scheduledBufferSources s)\<rparr>)
         in if scheduledBufferSources s1 = [] \<and> audioBufferQueue s1 = []
            then dispatchEvent (s1\<lparr>internalState := Ended\<rparr>)
            else if audioBufferQueue s1 \<noteq> [] then scheduleNextBufferSource s1
            else s1))"

section \<open>The public operations\<close>

text \<open>\<^verbatim>\<open>audioContext.resume()\<close> and \<^verbatim>\<open>audioContext.suspend()\<close>, awaited.\<close>

definition resume :: "player \<Rightarrow> player" where
  "resume s = s\<lparr>audioContext := map_option (\<lambda>c. c\<lparr>ctx_state := Running\<rparr>) (audioContext s)\<rparr>"

definition suspend :: "player \<Rightarrow> player" where
  "suspend s = s\<lparr>audioContext := map_option (\<lambda>c. c\<lparr>ctx_state := Suspended\<rparr>) (audioContext s)\<rparr>"

text \<open>
  \<^verbatim>\<open>play()\<close>. The \<^verbatim>\<open>await\<close> on \<^verbatim>\<open>resume()\<close> is taken to finish before anything else
  happens to the player. The read of \<^verbatim>\<open>this.audioContext.currentTime\<close> that re-bases
  \<open>nextStartTime\<close> is a read of the moving clock like those of the scheduling pass
  after it, and raises \<^verbatim>\<open>TypeError\<close> on a null field.
\<close>

definition play :: "player \<Rightarrow> exn option \<times> player" where
  "play s =
     (case audioContext s of
        None \<Rightarrow> (Some (Error ''AudioContext not initialized''), s)
      | Some ctx \<Rightarrow>
          if internalState s = Playing then (None, s)
          else
            (let s1 = s\<lparr>internalState := Playing\<rparr>;
                 s2 = (if ctx_state ctx = Suspended then resume s1 else s1)
             in if scheduledBufferSources s2 = [] \<and> audioBufferQueue s2 \<noteq> []
                then (case audioContext s2 of
                        None \<Rightarrow> (Some TypeError, s2)
                      | Some ctx2 \<Rightarrow>
                          (None, scheduleNextBufferSource
                                   (s2\<lparr>audioContext := Some (after_read ctx2),
                                       nextStartTime := currentTime_read ctx2\<rparr>)))
                else (None, s2)))"

definition pause :: "player \<Rightarrow> exn option \<times> player" where
  "pause s =
     (if internalState s \<noteq> Playing then (None, s)
      else (case audioContext s of
              None \<Rightarrow> (Some (Error ''AudioContext not initialized''), s)
            | Some ctx \<Rightarrow> (None, suspend (s\<lparr>internalState := Paused\<rparr>))))"

text \<open>
  \<^verbatim>\<open>reset()\<close>. \<^verbatim>\<open>source.stop()\<close> raises \<^verbatim>\<open>InvalidStateError\<close> on a node that was
  never started; the loop catches it and logs. The nodes are dropped right after the loop,
  so only the log is kept.
\<close>

definition stop_and_disconnect :: "source_node \<Rightarrow> exn + source_node" where
  "stop_and_disconnect source =
     (if start_at source = None then Inl (DOMException ''InvalidStateError'')
      else Inr (source\<lparr>stopped := True, connected := False\<rparr>))"

fun stop_sources :: "source_node list \<Rightarrow> string list \<Rightarrow> string list" where
  "stop_sources [] out = out"
| "stop_sources (source # rest) out =
     (case stop_and_disconnect source of
        Inl e \<Rightarrow> stop_sources rest (out @ [''Error stopping source:''])
      | Inr _ \<Rightarrow> stop_sources rest out)"

text \<open>
  \<^verbatim>\<open>reset()\<close> waits for \<^verbatim>\<open>audioContext.close()\<close>, and the player is in state
  \<^verbatim>\<open>resetting\<close> while it waits; other calls and callbacks can reach the player in
  between. So the call is two steps. \<open>reset_call\<close> is the call up to the \<^verbatim>\<open>await\<close>:
  \<open>reset_begin\<close> (the state, the loop over the sources, the empty list), then
  \<^verbatim>\<open>close()\<close>, which rejects with \<^verbatim>\<open>InvalidStateError\<close> on a context that is already
  closing (the call ends there, the state still \<^verbatim>\<open>resetting\<close>); on a null context
  there is no \<^verbatim>\<open>await\<close> and the call runs to its end. \<open>reset_finish\<close> is the
  code after the \<^verbatim>\<open>await\<close>, run when the context has closed, and \<open>reset_rest\<close> the
  lines after the \<^verbatim>\<open>if\<close>.
\<close>

definition reset_begin :: "player \<Rightarrow> player" where
  "reset_begin s =
     (let s1 = s\<lparr>internalState := Resetting\<rparr>;
          s2 = s1\<lparr>console := stop_sources (scheduledBufferSources s1) (console s1)\<rparr>
      in s2\<lparr>scheduledBufferSources := []\<rparr>)"

definition reset_rest :: "audio_context \<Rightarrow> player \<Rightarrow> player" where
  "reset_rest fresh s =
     (initAudioContext fresh s)
       \<lparr>audioBufferQueue := [], nextStartTime := 0, eventTarget := [],
        internalState := Idle\<rparr>"

definition reset_finish :: "audio_context \<Rightarrow> player \<Rightarrow> player" where
  "reset_finish fresh s = reset_rest fresh (s\<lparr>audioContext := None\<rparr>)"

definition close :: "audio_context \<Rightarrow> exn + audio_context" where
  "close ctx =
     (if closing ctx then Inl (DOMException ''InvalidStateError'')
      else Inr (ctx\<lparr>closing := True\<rparr>))"

definition reset_call :: "audio_context \<Rightarrow> player \<Rightarrow> exn option \<times> player" where
  "reset_call fresh s =
     (let s1 = reset_begin s
      in case audioContext s1 of
           None \<Rightarrow> (None, reset_rest fresh s1)
         | Some ctx \<Rightarrow>
             (case close ctx of
                Inl e \<Rightarrow> (Some e, s1)
              | Inr ctx' \<Rightarrow> (None, s1\<lparr>audioContext := Some ctx'\<rparr>)))"

text \<open>\<^verbatim>\<open>EventTarget.addEventListener\<close> does not add a listener twice;
  \<^verbatim>\<open>removeEventListener\<close> removes it. (The \<^verbatim>\<open>options\<close> argument is left out.)\<close>

definition addEventListener :: "listener \<Rightarrow> player \<Rightarrow> player" where
  "addEventListener l s =
     (if l \<in> set (eventTarget s) then s else s\<lparr>eventTarget := eventTarget s @ [l]\<rparr>)"

definition removeEventListener :: "listener \<Rightarrow> player \<Rightarrow> player" where
  "removeEventListener l s = s\<lparr>eventTarget := removeAll l (eventTarget s)\<rparr>"

section \<open>Runs of the player\<close>

text \<open>
  What can happen to a player, one event at a time: a call of a public method
  (\<open>ResetCall\<close> is \<^verbatim>\<open>reset()\<close> up to its \<^verbatim>\<open>await\<close>), the continuation of a
  \<^verbatim>\<open>reset()\<close> once the context has closed (\<open>ResetResumed\<close>), the device reporting a
  node finished, and the device clock moving on between two events.
\<close>

datatype event =
    AddChunk string real
  | Play
  | Pause
  | ResetCall audio_context
  | ResetResumed audio_context
  | SourceEnded source_node
  | AddEventListener listener
  | RemoveEventListener listener
  | Tick real

definition tick :: "real \<Rightarrow> player \<Rightarrow> player" where
  "tick t s =
     s\<lparr>audioContext :=
         map_option (\<lambda>c. if ctx_state c = Running then c\<lparr>currentTime := max (currentTime c) t\<rparr> else c)
           (audioContext s)\<rparr>"

fun step :: "event \<Rightarrow> player \<Rightarrow> player" where
  "step (AddChunk base64Data rate) s = snd (addChunk base64Data rate s)"
| "step Play s = snd (play s)"
| "step Pause s = snd (pause s)"
| "step (ResetCall fresh) s = snd (reset_call fresh s)"
| "step (ResetResumed fresh) s = reset_finish fresh s"
| "step (SourceEnded source) s = onended source s"
| "step (AddEventListener l) s = addEventListener l s"
| "step (RemoveEventListener l) s = removeEventListener l s"
| "step (Tick t) s = tick t s"

fun run :: "event list \<Rightarrow> player \<Rightarrow> player" where
  "run [] s = s"
| "run (e # es) s = run es (step e s)"

section \<open>What one scheduling pass does, as functions of the queue\<close>

text \<open>
  The nodes a pass creates, their start times and the final \<open>nextStartTime\<close>, for a
  pass that starts with node counter \<open>k\<close>, \<open>nextStartTime = t\<close> and the audio
  context \<open>ctx\<close>, whose clock is read once for every buffer. \<open>schedule_pass\<close> below
  proves that \<open>scheduleNextBufferSource\<close> computes exactly these.
\<close>

fun pass_nodes :: "nat \<Rightarrow> real \<Rightarrow> audio_context \<Rightarrow> audio_buffer list \<Rightarrow> source_node list" where
  "pass_nodes k t ctx [] = []"
| "pass_nodes k t ctx (b # q) =
     \<lparr>node_id = k, buffer = Some b, connected = True,
      start_at = Some (max t (currentTime_read ctx)), stopped = False\<rparr>
       # pass_nodes (Suc k) (max t (currentTime_read ctx) + duration b) (after_read ctx) q"

fun pass_starts :: "real \<Rightarrow> audio_context \<Rightarrow> audio_buffer list \<Rightarrow> real list" where
  "pass_starts t ctx [] = []"
| "pass_starts t ctx (b # q) =
     max t (currentTime_read ctx)
       # pass_starts (max t (currentTime_read ctx) + duration b) (after_read ctx) q"

fun pass_end :: "real \<Rightarrow> audio_context \<Rightarrow> audio_buffer list \<Rightarrow> real" where
  "pass_end t ctx [] = t"
| "pass_end t ctx (b # q) = pass_end (max t (currentTime_read ctx) + duration b) (after_read ctx) q"

text \<open>The scheduled sources once \<open>source\<close> finished: what \<^verbatim>\<open>indexOf\<close> and
  \<^verbatim>\<open>splice\<close> in the \<^verbatim>\<open>onended\<close> callback leave.\<close>

definition without :: "source_node \<Rightarrow> source_node list \<Rightarrow> source_node list" where
  "without source xs =
     (case indexOf xs source of None \<Rightarrow> xs | Some index \<Rightarrow> splice1 index xs)"

text \<open>The \<^verbatim>\<open>ended\<close> events dispatched between two points of a run.\<close>

definition notified_since :: "player \<Rightarrow> player \<Rightarrow> listener list list" where
  "notified_since s s' = drop (length (notified s)) (notified s')"

text \<open>A play-through: \<^verbatim>\<open>play()\<close>, then the device reports each source that the call
  scheduled as finished, in the order they were scheduled, and nothing else happens.\<close>

definition play_through :: "player \<Rightarrow> player" where
  "play_through s =
     (let s1 = snd (play s) in run (map SourceEnded (scheduledBufferSources s1)) s1)"

text \<open>The events that can reach a player while its \<^verbatim>\<open>reset()\<close> waits and that leave
  the reset alone: chunks arriving, \<^verbatim>\<open>pause()\<close>, completion callbacks (of the sources the
  reset just stopped, for one) and the clock. \<^verbatim>\<open>play()\<close> is not one of them.\<close>

definition waits_quietly :: "event \<Rightarrow> bool" where
  "waits_quietly e =
     (case e of
        AddChunk d r \<Rightarrow> True
      | Pause \<Rightarrow> True
      | SourceEnded source \<Rightarrow> True
      | Tick t \<Rightarrow> True
      | _ \<Rightarrow> False)"

subsection \<open>Concrete players for the examples\<close>

text \<open>Contexts with a clock that stands still at \<open>t\<close>, on an implementation that
  accepts the sample rates every implementation must accept.\<close>

definition running_at :: "real \<Rightarrow> audio_context" where
  "running_at t =
     \<lparr>currentTime = t, ctx_state = Running, closing = False, upcoming = [],
      rate_min = 8000, rate_max = 96000\<rparr>"

definition suspended_at :: "real \<Rightarrow> audio_context" where
  "suspended_at t =
     \<lparr>currentTime = t, ctx_state = Suspended, closing = False, upcoming = [],
      rate_min = 8000, rate_max = 96000\<rparr>"

text \<open>A buffer of half a second, and a playing player with three of them queued at device
  time 0.\<close>

definition half_second :: audio_buffer where
  "half_second =
     \<lparr>numberOfChannels = 1, frames = 8000, sampleRate = 16000, channel0 = replicate 8000 0\<rparr>"

definition three_queued :: player where
  "three_queued =
     (init (running_at 0))
       \<lparr>audioBufferQueue := [half_second, half_second, half_second], internalState := Playing\<rparr>"

text \<open>The same three buffers on an idle player, before \<^verbatim>\<open>play()\<close>.\<close>

definition three_idle :: player where
  "three_idle =
     (init (running_at 0))\<lparr>audioBufferQueue := [half_second, half_second, half_second]\<rparr>"

text \<open>The buffers that the chunks \<^verbatim>\<open>AQCA//8A\<close> (bytes 01 00 80 FF FF 00) and
  \<^verbatim>\<open>AAA=\<close> (bytes 00 00) decode to at 16 kHz.\<close>

definition sample_chunk :: audio_buffer where
  "sample_chunk =
     \<lparr>numberOfChannels = 1, frames = 3, sampleRate = 16000,
      channel0 = [1 / 32768, - 128 / 32768, 255 / 32768]\<rparr>"

definition short_chunk :: audio_buffer where
  "short_chunk = \<lparr>numberOfChannels = 1, frames = 1, sampleRate = 16000, channel0 = [0]\<rparr>"

text \<open>A new player with listener 7 registered, and runs from it: one chunk added; then
  \<^verbatim>\<open>play()\<close>; then the device plays the chunk to its end (device time 1) and
  \<^verbatim>\<open>pause()\<close> is called before the completion callback is delivered. \<open>node0\<close> is the
  source that this \<^verbatim>\<open>play()\<close> schedules.\<close>

definition listening :: player where
  "listening = addEventListener 7 (init (running_at 0))"

definition node0 :: source_node where
  "node0 = \<lparr>node_id = 0, buffer = Some sample_chunk, connected = True, start_at = Some 0,
            stopped = False\<rparr>"

definition one_queued :: player where
  "one_queued = run [AddChunk ''AQCA//8A'' 16000] listening"

definition one_playing :: player where
  "one_playing = run [AddChunk ''AQCA//8A'' 16000, Play] listening"

definition one_paused :: player where
  "one_paused = run [AddChunk ''AQCA//8A'' 16000, Play, Tick 1, Pause] listening"

text \<open>A second, shorter chunk arrives while the first plays, and \<^verbatim>\<open>reset()\<close> is called:
  the player waits for the context to close.\<close>

definition reset_waiting :: player where
  "reset_waiting =
     run [AddChunk ''AQCA//8A'' 16000, Play, AddChunk ''AAA='' 16000, ResetCall (running_at 0)]
       listening"

text \<open>The first chunk plays to its end at device time 1, then a second chunk arrives.\<close>

definition ended_then_chunk :: player where
  "ended_then_chunk =
     run [AddChunk ''AQCA//8A'' 16000, Play, Tick 1, SourceEnded node0, AddChunk ''AAA='' 16000]
       listening"

text \<open>A \<^verbatim>\<open>reset()\<close> of the listening player, from the call to the end.\<close>

definition after_reset :: player where
  "after_reset = run [ResetCall (running_at 0), ResetResumed (running_at 0)] listening"

text \<open>\<^verbatim>\<open>play()\<close> is called while the \<^verbatim>\<open>reset()\<close> of \<open>reset_waiting\<close> waits, and then
  the context has closed and the reset runs to its end. \<open>node1\<close> is the source that this
  \<^verbatim>\<open>play()\<close> schedules.\<close>

definition node1 :: source_node where
  "node1 = \<lparr>node_id = 1, buffer = Some short_chunk, connected = True, start_at = Some 0,
            stopped = False\<rparr>"

definition reset_after_play :: player where
  "reset_after_play = run [Play, ResetResumed (running_at 0)] reset_waiting"

text \<open>Two short chunks (1/16000 s each) are queued and \<^verbatim>\<open>play()\<close> is called on a
  context whose clock moves by one render quantum (128 frames at 44100 Hz) between the two
  calls of the scheduling pass.\<close>

definition quantum_later :: player where
  "quantum_later =
     run [AddChunk ''AAA='' 16000, AddChunk ''AAA='' 16000, Play]
       (init ((running_at 0)\<lparr>upcoming := [0, 0, 128 / 44100]\<rparr>))"


section \<open>The decoder\<close>


lemma uint_word_cat_bytes:
  "uint (word_cat (hi :: 8 word) (lo :: 8 word) :: 16 word) = uint lo + 256 * uint hi"
proof -
  have b: "uint hi < 256" "uint lo < 256" "0 \<le> uint hi" "0 \<le> uint lo"
    using uint_lt2p [of hi] uint_lt2p [of lo] by simp_all
  have "uint (word_cat hi lo :: 16 word) = take_bit 16 (take_bit 8 (uint lo) + push_bit 8 (uint hi))"
    by (simp only: word_cat_eq' concat_bit_eq uint_word_of_int_eq) simp
  also have "take_bit 8 (uint lo) = uint lo"
    using b by (simp add: take_bit_int_eq_self)
  also have "push_bit 8 (uint hi) = 256 * uint hi"
    by (simp add: push_bit_eq_mult)
  also have "take_bit 16 (uint lo + 256 * uint hi) = uint lo + 256 * uint hi"
    using b by (simp add: take_bit_int_eq_self)
  finally show ?thesis .
qed

lemma sint_16: "sint (w :: 16 word) = (if uint w < 32768 then uint w else uint w - 65536)"
proof -
  have b: "0 \<le> uint w" "uint w < 65536"
    using uint_lt2p [of w] by simp_all
  have "sint w = (uint w + 32768) mod 65536 - 32768"
    by (simp add: sint_uint signed_take_bit_eq_take_bit_shift take_bit_eq_mod)
  also have "(uint w + 32768) mod 65536 = (if uint w < 32768 then uint w + 32768 else uint w - 32768)"
  proof (cases "uint w < 32768")
    case True
    with b show ?thesis by (simp add: mod_pos_pos_trivial)
  next
    case False
    have "uint w + 32768 = (uint w - 32768) + 65536" by arith
    then have "(uint w + 32768) mod 65536 = ((uint w - 32768) + 65536) mod 65536" by (rule arg_cong)
    also have "\<dots> = (uint w - 32768) mod 65536" by (simp only: mod_add_self2)
    also have "\<dots> = uint w - 32768" using b False by (simp add: mod_pos_pos_trivial)
    finally show ?thesis using False by simp
  qed
  finally show ?thesis by simp
qed


lemma length_int16_view: "length (int16_view bs) = length bs div 2"
  by (induction bs rule: int16_view.induct) simp_all


lemma convert_even:
  assumes "audioContext s = Some ctx" and "atob base64Data = Inr payload"
    and "even (length payload)" and "payload \<noteq> []"
    and "0 < rate" and "rate_min ctx \<le> rate" and "rate \<le> rate_max ctx"
  shows "convertBase64ToAudioBuffer s base64Data rate =
           Inr \<lparr>numberOfChannels = 1, frames = length payload div 2, sampleRate = rate,
                channel0 = map (\<lambda>w. real_of_int (sint w) / 32768)
                             (int16_view (Uint8Array_of payload))\<rparr>"
proof -
  from assms(4) have "0 < length payload" by simp
  moreover from assms(3) have "length payload \<noteq> 1" by auto
  ultimately have "2 \<le> length payload" by arith
  then have pos: "0 < length payload div 2" by simp
  then have "length (int16_view (map (\<lambda>c. word_of_nat (of_char c)) payload)) \<noteq> 0"
    by (simp add: length_int16_view)
  then have "int16_view (map (\<lambda>c. word_of_nat (of_char c)) payload) \<noteq> []"
    by (simp only: length_0_conv not_False_eq_True)
  with pos assms show ?thesis
    by (simp add: convertBase64ToAudioBuffer_def Int16Array_of_def Uint8Array_of_def
        createBuffer_def typed_array_set_def length_int16_view Let_def even_iff_mod_2_eq_zero)
qed

lemma atob_example:
  "atob ''AQCA//8A'' = Inr [CHR 0x01, CHR 0x00, CHR 0x80, CHR 0xFF, CHR 0xFF, CHR 0x00]"
  by code_simp

lemma atob_odd_example: "atob ''AAAA'' = Inr [CHR 0x00, CHR 0x00, CHR 0x00]"
  by code_simp


lemma init_context: "audioContext (init fresh) = Some fresh"
  by (simp add: init_def initAudioContext_def)




text \<open>
  \<^bold>\<open>C8.\<close> When the payload that \<^verbatim>\<open>atob\<close> returns has an odd number of bytes, decoding
  raises (\<^verbatim>\<open>RangeError\<close> from the \<^verbatim>\<open>Int16Array\<close> view when the audio context exists; the
  specification's \<^verbatim>\<open>DecodeError\<close>), the \<^verbatim>\<open>addChunk\<close> call fails and leaves the player, and
  so its queue, as it was. (In state \<^verbatim>\<open>resetting\<close> the call fails at its guard, before
  decoding.)
\<close>

theorem addChunk_misaligned_payload:
  assumes "atob base64Data = Inr payload" and "odd (length payload)"
  shows "\<exists>e. convertBase64ToAudioBuffer s base64Data rate = Inl e
           \<and> e = (if audioContext s = None then Error ''AudioContext not initialized''
                   else RangeError)
           \<and> addChunk_failure_class e = Some DecodeError
           \<and> fst (addChunk base64Data rate s) \<noteq> None
           \<and> snd (addChunk base64Data rate s) = s
           \<and> addChunk base64Data rate s
               = (if internalState s = Resetting
                  then (Some (Error ''Cannot add chunk while resetting''), s)
                  else (Some e, s))"
  using assms
  by (cases "audioContext s")
    (simp_all add: convertBase64ToAudioBuffer_def addChunk_def Int16Array_of_def
      Uint8Array_of_def addChunk_failure_class_def odd_iff_mod_2_eq_one)

text \<open>The chunk \<^verbatim>\<open>AAAA\<close> is three bytes.\<close>

theorem addChunk_misaligned_payload_witness:
  "convertBase64ToAudioBuffer (init (suspended_at 0)) ''AAAA'' 16000
     = Inl RangeError
   \<and> addChunk_failure_class RangeError = Some DecodeError
   \<and> addChunk ''AAAA'' 16000 (init (suspended_at 0))
     = (Some RangeError, init (suspended_at 0))"
proof -
  have odd3: "odd (length [CHR 0x00, CHR 0x00, CHR 0x00])" by simp
  have idle: "internalState (init (suspended_at 0)) = Idle"
    by (simp add: init_def initAudioContext_def)
  from addChunk_misaligned_payload [OF atob_odd_example odd3,
      of "init (suspended_at 0)" 16000]
  show ?thesis by (auto simp: init_context idle)
qed

text \<open>
  \<^bold>\<open>C4.\<close> In state \<^verbatim>\<open>resetting\<close>, \<^verbatim>\<open>addChunk\<close> raises the guard's error (the
  specification's \<^verbatim>\<open>InvalidStateError\<close>) whatever the chunk, and the player, and so its
  queue, is left as it was.
\<close>

theorem addChunk_while_resetting:
  assumes "internalState s = Resetting"
  shows "addChunk base64Data rate s = (Some (Error ''Cannot add chunk while resetting''), s)
       \<and> addChunk_failure_class (Error ''Cannot add chunk while resetting'')
           = Some InvalidStateError
       \<and> audioBufferQueue (snd (addChunk base64Data rate s)) = audioBufferQueue s"
  using assms by (simp add: addChunk_def addChunk_failure_class_def)

text \<open>A player whose \<^verbatim>\<open>reset()\<close> is waiting for the context to close is in that state.\<close>

theorem addChunk_while_resetting_witness:
  "internalState (reset_begin (init (running_at 0))) = Resetting
   \<and> addChunk ''AQCA//8A'' 16000 (reset_begin (init (running_at 0)))
       = (Some (Error ''Cannot add chunk while resetting''),
          reset_begin (init (running_at 0)))"
proof -
  have r: "internalState (reset_begin (init (running_at 0))) = Resetting"
    by (simp add: reset_begin_def Let_def)
  from addChunk_while_resetting [OF r, of "''AQCA//8A''" 16000] r show ?thesis by simp
qed


section \<open>Play\<close>




section \<open>The scheduling pass\<close>

lemma schedule_pass:
  assumes "audioContext s = Some ctx" and "internalState s = Playing"
  shows "scheduleNextBufferSource s =
           s\<lparr>audioContext := Some ((after_read ^^ length (audioBufferQueue s)) ctx),
             audioBufferQueue := [],
             allocated := allocated s + length (audioBufferQueue s),
             nextStartTime := pass_end (nextStartTime s) ctx (audioBufferQueue s),
             scheduledBufferSources :=
               scheduledBufferSources s
                 @ pass_nodes (allocated s) (nextStartTime s) ctx (audioBufferQueue s)\<rparr>"
  using assms
proof (induction "audioBufferQueue s" arbitrary: s ctx)
  case Nil
  then show ?case
    by (subst scheduleNextBufferSource.simps) simp
next
  case (Cons b q)
  from Cons.hyps(2) have qs: "audioBufferQueue s = b # q" by simp
  let ?s' = "s\<lparr>audioContext := Some (after_read ctx),
                audioBufferQueue := q,
                allocated := Suc (allocated s),
                nextStartTime := max (nextStartTime s) (currentTime_read ctx) + duration b,
                scheduledBufferSources :=
                  scheduledBufferSources s @
                    [\<lparr>node_id = allocated s, buffer = Some b, connected = True,
                      start_at = Some (max (nextStartTime s) (currentTime_read ctx)),
                      stopped = False\<rparr>]\<rparr>"
  have unfold: "scheduleNextBufferSource s = (if q \<noteq> [] then scheduleNextBufferSource ?s' else ?s')"
    using Cons.prems qs
    by (subst scheduleNextBufferSource.simps) (simp add: createBufferSource_def Let_def)
  show ?case
  proof (cases "q = []")
    case True
    with unfold qs show ?thesis by simp
  next
    case False
    have "scheduleNextBufferSource ?s' = ?s'\<lparr>
             audioContext := Some ((after_read ^^ length (audioBufferQueue ?s')) (after_read ctx)),
             audioBufferQueue := [],
             allocated := allocated ?s' + length (audioBufferQueue ?s'),
             nextStartTime := pass_end (nextStartTime ?s') (after_read ctx) (audioBufferQueue ?s'),
             scheduledBufferSources :=
               scheduledBufferSources ?s'
                 @ pass_nodes (allocated ?s') (nextStartTime ?s') (after_read ctx)
                     (audioBufferQueue ?s')\<rparr>"
      by (rule Cons.hyps(1)) (use Cons.prems in simp_all)
    with unfold False qs show ?thesis by (simp add: funpow_swap1)
  qed
qed

lemma scheduleNextBufferSource_idle:
  "audioContext s = None \<or> internalState s \<noteq> Playing \<or> audioBufferQueue s = []
     \<Longrightarrow> scheduleNextBufferSource s = s"
  by (subst scheduleNextBufferSource.simps) (auto split: option.splits)

lemma length_pass_nodes: "length (pass_nodes k t ctx q) = length q"
  by (induction q arbitrary: k t ctx) simp_all

lemma buffer_pass_nodes: "map buffer (pass_nodes k t ctx q) = map Some q"
  by (induction q arbitrary: k t ctx) simp_all

lemma start_at_pass_nodes: "map start_at (pass_nodes k t ctx q) = map Some (pass_starts t ctx q)"
  by (induction q arbitrary: k t ctx) simp_all

lemma length_pass_starts: "length (pass_starts t ctx q) = length q"
  by (induction q arbitrary: t ctx) simp_all

lemma currentTime_read_mono: "currentTime ctx \<le> currentTime_read ctx"
  by (simp add: currentTime_read_def split: list.splits)

lemma currentTime_after_read: "currentTime (after_read ctx) = currentTime_read ctx"
  by (simp add: after_read_def)

lemma standing_clock:
  assumes "upcoming ctx = []"
  shows "currentTime_read ctx = currentTime ctx" and "after_read ctx = ctx"
  using assms by (simp_all add: currentTime_read_def after_read_def)

lemma standing_clock_funpow: "upcoming ctx = [] \<Longrightarrow> (after_read ^^ n) ctx = ctx"
  by (induction n) (simp_all add: standing_clock)

text \<open>Each start time is the end of the buffer before it or the clock read for it,
  whichever is later.\<close>

lemma pass_starts_step:
  assumes "Suc i < length q"
  shows "pass_starts t ctx q ! Suc i
           = max (pass_starts t ctx q ! i + duration (q ! i))
                 (currentTime_read ((after_read ^^ Suc i) ctx))"
  using assms
proof (induction q arbitrary: t ctx i)
  case Nil
  then show ?case by simp
next
  case (Cons b q)
  then obtain b' q' where q: "q = b' # q'" by (cases q) auto
  show ?case
  proof (cases i)
    case 0
    with q show ?thesis by simp
  next
    case (Suc j)
    with Cons.prems have "Suc j < length q" by simp
    then have "pass_starts (max t (currentTime_read ctx) + duration b) (after_read ctx) q ! Suc j
        = max (pass_starts (max t (currentTime_read ctx) + duration b) (after_read ctx) q ! j
                 + duration (q ! j))
              (currentTime_read ((after_read ^^ Suc j) (after_read ctx)))"
      by (rule Cons.IH)
    moreover have "(after_read ^^ Suc j) (after_read ctx) = (after_read ^^ Suc (Suc j)) ctx"
      by (simp add: funpow_swap1)
    ultimately show ?thesis using Suc by simp
  qed
qed

text \<open>With a clock that stands still and no negative duration, the start times abut.\<close>

lemma pass_starts_chain:
  assumes "upcoming ctx = []" and "\<forall>b\<in>set q. 0 \<le> duration b" and "Suc i < length q"
  shows "pass_starts t ctx q ! Suc i = pass_starts t ctx q ! i + duration (q ! i)"
  using assms(2,3)
proof (induction q arbitrary: t i)
  case Nil
  then show ?case by simp
next
  case (Cons b q)
  note still = standing_clock [OF assms(1)]
  then obtain b' q' where q: "q = b' # q'" using Cons.prems by (cases q) auto
  have d: "0 \<le> duration b" using Cons.prems by simp
  show ?case
  proof (cases i)
    case 0
    have "max (max t (currentTime ctx) + duration b) (currentTime ctx)
        = max t (currentTime ctx) + duration b"
      using d by (simp add: max_def)
    with 0 q show ?thesis by (simp add: still)
  next
    case (Suc j)
    with Cons.prems have "Suc j < length q" by simp
    moreover have "\<forall>b\<in>set q. 0 \<le> duration b" using Cons.prems by simp
    ultimately have "pass_starts (max t (currentTime ctx) + duration b) ctx q ! Suc j
        = pass_starts (max t (currentTime ctx) + duration b) ctx q ! j + duration (q ! j)"
      by (rule Cons.IH [rotated])
    with Suc show ?thesis by (simp add: still)
  qed
qed

lemma pass_end_mono:
  "\<forall>b\<in>set q. 0 \<le> duration b \<Longrightarrow> t \<le> pass_end t ctx q"
proof (induction q arbitrary: t ctx)
  case Nil
  then show ?case by simp
next
  case (Cons b q)
  then have "max t (currentTime_read ctx) + duration b
      \<le> pass_end (max t (currentTime_read ctx) + duration b) (after_read ctx) q"
    by simp
  moreover have "t \<le> max t (currentTime_read ctx) + duration b"
    using Cons.prems by (simp add: max_def)
  ultimately show ?case by simp
qed

text \<open>
  \<^bold>\<open>C1\<close> (as amended). A pass of \<^verbatim>\<open>scheduleNextBufferSource\<close> on a playing player
  schedules the whole queue, in order, behind the sources already scheduled. The first
  start time is the larger of \<open>nextStartTime\<close> and the device time read for it; each
  later one is the larger of the end of the buffer before it (that buffer's start time plus
  its duration) and the device time read when it is scheduled. So no buffer starts before
  the one before it ends, and a buffer starts exactly at that end if and only if the clock
  has not passed it when the buffer is scheduled: always, when the clock does not move
  during the pass and no duration is negative.
\<close>

theorem scheduleNextBufferSource_start_times:
  assumes "audioContext s = Some ctx" and "internalState s = Playing"
  shows "\<exists>new starts.
           scheduledBufferSources (scheduleNextBufferSource s) = scheduledBufferSources s @ new
         \<and> audioBufferQueue (scheduleNextBufferSource s) = []
         \<and> map buffer new = map Some (audioBufferQueue s)
         \<and> map start_at new = map Some starts
         \<and> (audioBufferQueue s \<noteq> [] \<longrightarrow>
              starts ! 0 = max (nextStartTime s) (currentTime_read ctx))
         \<and> (\<forall>i. Suc i < length starts \<longrightarrow>
               starts ! Suc i
                 = max (starts ! i + duration (audioBufferQueue s ! i))
                       (currentTime_read ((after_read ^^ Suc i) ctx)))
         \<and> (\<forall>i. Suc i < length starts \<longrightarrow>
               starts ! i + duration (audioBufferQueue s ! i) \<le> starts ! Suc i)
         \<and> (\<forall>i. Suc i < length starts \<longrightarrow>
               (starts ! Suc i = starts ! i + duration (audioBufferQueue s ! i))
                 = (currentTime_read ((after_read ^^ Suc i) ctx)
                      \<le> starts ! i + duration (audioBufferQueue s ! i)))
         \<and> (upcoming ctx = [] \<and> (\<forall>b\<in>set (audioBufferQueue s). 0 \<le> duration b) \<longrightarrow>
              (\<forall>i. Suc i < length starts \<longrightarrow>
                 starts ! Suc i = starts ! i + duration (audioBufferQueue s ! i)))"
proof -
  let ?q = "audioBufferQueue s"
  let ?new = "pass_nodes (allocated s) (nextStartTime s) ctx ?q"
  let ?starts = "pass_starts (nextStartTime s) ctx ?q"
  have step: "?starts ! Suc i
      = max (?starts ! i + duration (?q ! i)) (currentTime_read ((after_read ^^ Suc i) ctx))"
    if "Suc i < length ?starts" for i
    using that by (intro pass_starts_step) (simp add: length_pass_starts)
  have "scheduledBufferSources (scheduleNextBufferSource s) = scheduledBufferSources s @ ?new"
    and "audioBufferQueue (scheduleNextBufferSource s) = []"
    by (simp_all add: schedule_pass [OF assms(1,2)])
  moreover have "map buffer ?new = map Some ?q" by (rule buffer_pass_nodes)
  moreover have "map start_at ?new = map Some ?starts" by (rule start_at_pass_nodes)
  moreover have "?q \<noteq> [] \<longrightarrow> ?starts ! 0 = max (nextStartTime s) (currentTime_read ctx)"
    by (cases ?q) simp_all
  moreover have "\<forall>i. Suc i < length ?starts \<longrightarrow> ?starts ! Suc i
      = max (?starts ! i + duration (?q ! i)) (currentTime_read ((after_read ^^ Suc i) ctx))"
    using step by blast
  moreover have "\<forall>i. Suc i < length ?starts \<longrightarrow>
      ?starts ! i + duration (?q ! i) \<le> ?starts ! Suc i"
    using step by (simp del: funpow.simps)
  moreover have "\<forall>i. Suc i < length ?starts \<longrightarrow>
      (?starts ! Suc i = ?starts ! i + duration (?q ! i))
        = (currentTime_read ((after_read ^^ Suc i) ctx) \<le> ?starts ! i + duration (?q ! i))"
    using step by (auto simp del: funpow.simps simp: max_def)
  moreover have "upcoming ctx = [] \<and> (\<forall>b\<in>set ?q. 0 \<le> duration b) \<longrightarrow>
      (\<forall>i. Suc i < length ?starts \<longrightarrow> ?starts ! Suc i = ?starts ! i + duration (?q ! i))"
    using pass_starts_chain [of ctx ?q] by (simp add: length_pass_starts)
  ultimately show ?thesis by blast
qed

text \<open>Three buffers of half a second, scheduled at device time 0 with a clock that stands
  still, start at 0, 0.5 and 1.\<close>

theorem scheduleNextBufferSource_start_times_witness:
  "\<exists>new. scheduledBufferSources (scheduleNextBufferSource three_queued) = new
     \<and> map buffer new = [Some half_second, Some half_second, Some half_second]
     \<and> map start_at new = [Some 0, Some (1 / 2), Some 1]"
proof -
  have c: "audioContext three_queued = Some (running_at 0)"
    and p: "internalState three_queued = Playing"
    and q: "audioBufferQueue three_queued = [half_second, half_second, half_second]"
    and n: "nextStartTime three_queued = 0" and f: "scheduledBufferSources three_queued = []"
    by (simp_all add: three_queued_def init_def initAudioContext_def)
  have d: "duration half_second = 1 / 2"
    by (simp add: half_second_def duration_def)
  have still: "upcoming (running_at 0) = []" and now: "currentTime_read (running_at 0) = 0"
    by (simp_all add: running_at_def currentTime_read_def)
  have nonneg: "\<forall>b\<in>set (audioBufferQueue three_queued). 0 \<le> duration b"
    by (simp add: q d)
  from scheduleNextBufferSource_start_times [OF c p]
  obtain new starts where
    a1: "scheduledBufferSources (scheduleNextBufferSource three_queued)
          = scheduledBufferSources three_queued @ new"
    and a2: "map buffer new = map Some (audioBufferQueue three_queued)"
    and a3: "map start_at new = map Some starts"
    and a4: "audioBufferQueue three_queued \<noteq> [] \<longrightarrow>
          starts ! 0 = max (nextStartTime three_queued) (currentTime_read (running_at 0))"
    and a5: "upcoming (running_at 0) = []
          \<and> (\<forall>b\<in>set (audioBufferQueue three_queued). 0 \<le> duration b) \<longrightarrow>
          (\<forall>i. Suc i < length starts \<longrightarrow>
            starts ! Suc i = starts ! i + duration (audioBufferQueue three_queued ! i))"
    by blast
  from a5 still nonneg have chain: "\<forall>i. Suc i < length starts \<longrightarrow>
      starts ! Suc i = starts ! i + duration (audioBufferQueue three_queued ! i)"
    by blast
  have "length (map buffer new) = 3" by (simp only: a2 q) simp
  then have "length (map start_at new) = 3" by simp
  then have len: "length starts = 3" by (simp only: a3) simp
  from a4 have s0: "starts ! 0 = 0" by (simp add: q n now)
  from chain [rule_format, of 0] have s1: "starts ! Suc 0 = 1 / 2" by (simp add: len q d s0)
  from chain [rule_format, of "Suc 0"] have s2: "starts ! Suc (Suc 0) = 1"
    by (simp add: len q d s1)
  have "starts = [0, 1 / 2, 1]"
  proof (rule nth_equalityI)
    show "length starts = length [0, 1 / 2, 1 :: real]" by (simp add: len)
    fix i assume "i < length starts"
    then have "i = 0 \<or> i = Suc 0 \<or> i = Suc (Suc 0)" using len by arith
    then show "starts ! i = [0, 1 / 2, 1] ! i" using s0 s1 s2 by auto
  qed
  with a1 a2 a3 show ?thesis by (simp add: f q)
qed


section \<open>Facts about single steps\<close>

lemma schedule_frame:
  "internalState (scheduleNextBufferSource s) = internalState s"
  "notified (scheduleNextBufferSource s) = notified s"
  "eventTarget (scheduleNextBufferSource s) = eventTarget s"
proof -
  consider (pass) ctx where "audioContext s = Some ctx" "internalState s = Playing"
    | (skip) "audioContext s = None \<or> internalState s \<noteq> Playing"
    by (cases "audioContext s") auto
  then have "internalState (scheduleNextBufferSource s) = internalState s
    \<and> notified (scheduleNextBufferSource s) = notified s
    \<and> eventTarget (scheduleNextBufferSource s) = eventTarget s"
  proof cases
    case pass
    then show ?thesis by (simp add: schedule_pass)
  next
    case skip
    then have "scheduleNextBufferSource s = s" by (auto intro: scheduleNextBufferSource_idle)
    then show ?thesis by simp
  qed
  then show "internalState (scheduleNextBufferSource s) = internalState s"
    "notified (scheduleNextBufferSource s) = notified s"
    "eventTarget (scheduleNextBufferSource s) = eventTarget s"
    by simp_all
qed

lemma schedule_nextStartTime_mono:
  assumes "\<forall>b\<in>set (audioBufferQueue s). 0 \<le> duration b"
  shows "nextStartTime s \<le> nextStartTime (scheduleNextBufferSource s)"
proof (cases "\<exists>ctx. audioContext s = Some ctx \<and> internalState s = Playing")
  case True
  then obtain ctx where "audioContext s = Some ctx" "internalState s = Playing" by blast
  then show ?thesis using pass_end_mono [OF assms] by (simp add: schedule_pass)
next
  case False
  then have "scheduleNextBufferSource s = s"
    by (intro scheduleNextBufferSource_idle) (cases "audioContext s", auto)
  then show ?thesis by simp
qed

lemma currentTime_read_ctx_state [simp]:
  "currentTime_read (ctx\<lparr>ctx_state := x\<rparr>) = currentTime_read ctx"
  by (simp add: currentTime_read_def split: list.splits)

lemma play_after:
  assumes "audioContext s = Some ctx" and "internalState s \<noteq> Playing"
  shows "play s =
    (None,
     if scheduledBufferSources s = [] \<and> audioBufferQueue s \<noteq> []
     then scheduleNextBufferSource
            (s\<lparr>internalState := Playing,
               audioContext := Some (after_read (if ctx_state ctx = Suspended
                                                 then ctx\<lparr>ctx_state := Running\<rparr> else ctx)),
               nextStartTime := currentTime_read ctx\<rparr>)
     else s\<lparr>internalState := Playing,
            audioContext := Some (if ctx_state ctx = Suspended
                                  then ctx\<lparr>ctx_state := Running\<rparr> else ctx)\<rparr>)"
  using assms
  by (cases s) (auto simp: play_def Let_def resume_def)

lemma onended_alt:
  "onended source s =
     (if internalState s = Resetting then s
      else if without source (scheduledBufferSources s) = [] \<and> audioBufferQueue s = []
      then s\<lparr>scheduledBufferSources := [], internalState := Ended,
             notified := notified s @ [eventTarget s]\<rparr>
      else if audioBufferQueue s \<noteq> []
      then scheduleNextBufferSource
             (s\<lparr>scheduledBufferSources := without source (scheduledBufferSources s)\<rparr>)
      else s\<lparr>scheduledBufferSources := without source (scheduledBufferSources s)\<rparr>)"
  by (cases s) (auto simp: onended_def without_def dispatchEvent_def Let_def split: option.splits)

lemma play_frame:
  "notified (snd (play s)) = notified s"
  "eventTarget (snd (play s)) = eventTarget s"
  "internalState (snd (play s)) = Playing \<or> internalState (snd (play s)) = internalState s"
  by (auto simp: play_def Let_def resume_def schedule_frame split: option.splits)

lemma pause_frame:
  "notified (snd (pause s)) = notified s"
  "eventTarget (snd (pause s)) = eventTarget s"
  "nextStartTime (snd (pause s)) = nextStartTime s"
  "internalState (snd (pause s)) = Paused \<or> internalState (snd (pause s)) = internalState s"
  by (auto simp: pause_def suspend_def split: option.splits)

lemma addChunk_frame:
  "notified (snd (addChunk d r s)) = notified s"
  "eventTarget (snd (addChunk d r s)) = eventTarget s"
  "nextStartTime (snd (addChunk d r s)) = nextStartTime s"
  "internalState (snd (addChunk d r s)) = internalState s"
  by (auto simp: addChunk_def split: sum.splits)

lemma reset_frame:
  "notified (reset_begin s) = notified s" "internalState (reset_begin s) = Resetting"
  "eventTarget (reset_begin s) = eventTarget s" "nextStartTime (reset_begin s) = nextStartTime s"
  "notified (reset_finish fresh s) = notified s" "internalState (reset_finish fresh s) = Idle"
  "eventTarget (reset_finish fresh s) = []"
  "notified (reset_rest fresh s) = notified s" "internalState (reset_rest fresh s) = Idle"
  "eventTarget (reset_rest fresh s) = []"
  by (auto simp: reset_begin_def reset_finish_def reset_rest_def initAudioContext_def
      Let_def split: option.splits)

lemma reset_call_frame:
  "notified (snd (reset_call fresh s)) = notified s"
  "internalState (snd (reset_call fresh s)) = Resetting
     \<or> internalState (snd (reset_call fresh s)) = Idle"
  "scheduledBufferSources (snd (reset_call fresh s)) = []"
  "eventTarget (snd (reset_call fresh s)) = eventTarget s
     \<or> eventTarget (snd (reset_call fresh s)) = []"
  "audioContext s \<noteq> None \<Longrightarrow> nextStartTime (snd (reset_call fresh s)) = nextStartTime s"
  "audioContext s \<noteq> None \<Longrightarrow> internalState (snd (reset_call fresh s)) = Resetting"
  by (auto simp: reset_call_def reset_begin_def reset_rest_def initAudioContext_def close_def
      Let_def split: option.splits sum.splits)

lemma step_notified:
  "notified (step ev s) = notified s
   \<or> ((\<exists>source. ev = SourceEnded source) \<and> internalState s \<noteq> Resetting
       \<and> step ev s = s\<lparr>scheduledBufferSources := [], internalState := Ended,
                         notified := notified s @ [eventTarget s]\<rparr>
       \<and> audioBufferQueue s = [])"
proof (cases ev)
  case (SourceEnded source)
  then show ?thesis by (auto simp: onended_alt schedule_frame)
qed (auto simp: play_frame pause_frame addChunk_frame reset_frame reset_call_frame
    addEventListener_def removeEventListener_def tick_def split: option.splits)

lemma step_to_ended:
  assumes "internalState (step ev s) = Ended" and "internalState s \<noteq> Ended"
  shows "(\<exists>source. ev = SourceEnded source) \<and> internalState s \<noteq> Resetting
       \<and> step ev s = s\<lparr>scheduledBufferSources := [], internalState := Ended,
                         notified := notified s @ [eventTarget s]\<rparr>
       \<and> audioBufferQueue s = []"
proof (cases ev)
  case (SourceEnded source)
  with assms show ?thesis by (auto simp: onended_alt schedule_frame split: if_splits)
next
  case Play
  with assms play_frame(3) [of s] show ?thesis by auto
next
  case Pause
  with assms pause_frame(4) [of s] show ?thesis by auto
next
  case (ResetCall fresh)
  with assms reset_call_frame(2) [of fresh s] show ?thesis by auto
qed (use assms in \<open>auto simp: addChunk_frame reset_frame addEventListener_def
    removeEventListener_def tick_def split: option.splits if_splits\<close>)

lemma completions_in_order:
  assumes "internalState s \<noteq> Resetting" and "audioBufferQueue s = []"
    and "scheduledBufferSources s = nodes" and "nodes \<noteq> []"
  shows "run (map SourceEnded nodes) s
           = s\<lparr>scheduledBufferSources := [], internalState := Ended,
               notified := notified s @ [eventTarget s]\<rparr>"
  using assms
proof (induction nodes arbitrary: s)
  case Nil
  then show ?case by simp
next
  case (Cons x rest)
  have w: "without x (x # rest) = rest" by (simp add: without_def splice1_def)
  show ?case
  proof (cases "rest = []")
    case True
    with Cons.prems w show ?thesis by (simp add: onended_alt)
  next
    case False
    let ?s' = "s\<lparr>scheduledBufferSources := rest\<rparr>"
    have st: "onended x s = ?s'" using Cons.prems w False by (simp add: onended_alt)
    have "run (map SourceEnded rest) ?s'
        = ?s'\<lparr>scheduledBufferSources := [], internalState := Ended,
               notified := notified ?s' @ [eventTarget ?s']\<rparr>"
      by (rule Cons.IH) (use Cons.prems False in simp_all)
    with st show ?thesis by simp
  qed
qed

lemma completions_prefix:
  assumes "internalState s \<noteq> Resetting" and "audioBufferQueue s = []"
    and "scheduledBufferSources s = nodes" and "k < length nodes"
  shows "run (map SourceEnded (take k nodes)) s = s\<lparr>scheduledBufferSources := drop k nodes\<rparr>"
  using assms
proof (induction k arbitrary: s nodes)
  case 0
  then show ?case by simp
next
  case (Suc k)
  then obtain x rest where n: "nodes = x # rest" by (cases nodes) auto
  have w: "without x (x # rest) = rest" by (simp add: without_def splice1_def)
  from Suc.prems n have ne: "rest \<noteq> []" by auto
  let ?s' = "s\<lparr>scheduledBufferSources := rest\<rparr>"
  have st: "onended x s = ?s'" using Suc.prems w ne n by (simp add: onended_alt)
  have "run (map SourceEnded (take k rest)) ?s' = ?s'\<lparr>scheduledBufferSources := drop k rest\<rparr>"
    by (rule Suc.IH) (use Suc.prems n in simp_all)
  with st n show ?case by simp
qed

lemma play_through_once:
  assumes "audioContext p = Some ctx" and "internalState p \<noteq> Playing"
    and "scheduledBufferSources p = []" and "audioBufferQueue p \<noteq> []"
  shows "play_through p
           = (snd (play p))\<lparr>scheduledBufferSources := [], internalState := Ended,
                            notified := notified p @ [eventTarget p]\<rparr>"
    and "audioBufferQueue (snd (play p)) = []"
    and "scheduledBufferSources (snd (play p)) \<noteq> []"
    and "internalState (snd (play p)) = Playing"
    and "k < length (scheduledBufferSources (snd (play p))) \<Longrightarrow>
         notified (run (map SourceEnded (take k (scheduledBufferSources (snd (play p)))))
                    (snd (play p))) = notified p"
proof -
  let ?c2 = "after_read (if ctx_state ctx = Suspended then ctx\<lparr>ctx_state := Running\<rparr> else ctx)"
  let ?s2 = "p\<lparr>internalState := Playing, audioContext := Some ?c2,
               nextStartTime := currentTime_read ctx\<rparr>"
  let ?s1 = "snd (play p)"
  have s1: "?s1 = scheduleNextBufferSource ?s2"
    using assms by (simp add: play_after [OF assms(1,2)])
  have c2: "audioContext ?s2 = Some ?c2"
    and p2: "internalState ?s2 = Playing" and q2: "audioBufferQueue ?s2 = audioBufferQueue p"
    and f2: "scheduledBufferSources ?s2 = []"
    using assms by simp_all
  have pass: "scheduleNextBufferSource ?s2 = ?s2\<lparr>
             audioContext := Some ((after_read ^^ length (audioBufferQueue ?s2)) ?c2),
             audioBufferQueue := [],
             allocated := allocated ?s2 + length (audioBufferQueue ?s2),
             nextStartTime := pass_end (nextStartTime ?s2) ?c2 (audioBufferQueue ?s2),
             scheduledBufferSources :=
               scheduledBufferSources ?s2
                 @ pass_nodes (allocated ?s2) (nextStartTime ?s2) ?c2 (audioBufferQueue ?s2)\<rparr>"
    by (rule schedule_pass [OF c2 p2])
  have q1: "audioBufferQueue ?s1 = []" by (simp only: s1 pass) simp
  have f1: "length (scheduledBufferSources ?s1) = length (audioBufferQueue p)"
    by (simp only: s1 pass) (simp add: f2 q2 length_pass_nodes)
  then have ne: "scheduledBufferSources ?s1 \<noteq> []" using assms(4) by auto
  have st: "internalState ?s1 = Playing" by (simp only: s1 schedule_frame p2)
  have n1: "notified ?s1 = notified p" by (rule play_frame)
  have e1: "eventTarget ?s1 = eventTarget p" by (rule play_frame)
  have r: "internalState ?s1 \<noteq> Resetting" using st by simp
  show "play_through p = ?s1\<lparr>scheduledBufferSources := [], internalState := Ended,
                            notified := notified p @ [eventTarget p]\<rparr>"
    unfolding play_through_def Let_def
    using completions_in_order [OF r q1 refl ne] by (simp only: n1 e1)
  show "audioBufferQueue ?s1 = []" by (rule q1)
  show "scheduledBufferSources ?s1 \<noteq> []" by (rule ne)
  show "internalState ?s1 = Playing" by (rule st)
  show "notified (run (map SourceEnded (take k (scheduledBufferSources ?s1))) ?s1) = notified p"
    if "k < length (scheduledBufferSources ?s1)"
    using completions_prefix [OF r q1 refl that] by (simp add: n1)
qed

lemma step_listener:
  assumes "l \<notin> set (eventTarget s)" and "ev \<noteq> AddEventListener l"
  shows "l \<notin> set (eventTarget (step ev s))"
    and "notified (step ev s) = notified s \<or> notified (step ev s) = notified s @ [eventTarget s]"
proof -
  show "l \<notin> set (eventTarget (step ev s))"
  proof (cases ev)
    case (SourceEnded source)
    with assms show ?thesis by (auto simp: onended_alt schedule_frame)
  next
    case (ResetCall fresh)
    with assms reset_call_frame(4) [of fresh s] show ?thesis by auto
  qed (use assms in \<open>auto simp: play_frame pause_frame addChunk_frame reset_frame
      addEventListener_def removeEventListener_def tick_def split: option.splits if_splits\<close>)
  show "notified (step ev s) = notified s \<or> notified (step ev s) = notified s @ [eventTarget s]"
    using step_notified [of ev s] by auto
qed

lemma run_listener:
  assumes "l \<notin> set (eventTarget s)" and "AddEventListener l \<notin> set evs"
  shows "l \<notin> set (eventTarget (run evs s))
       \<and> (\<exists>new. notified (run evs s) = notified s @ new \<and> l \<notin> \<Union> (set ` set new))"
  using assms
proof (induction evs arbitrary: s)
  case Nil
  then show ?case by simp
next
  case (Cons ev evs)
  from Cons.prems have ne: "ev \<noteq> AddEventListener l" and rest: "AddEventListener l \<notin> set evs"
    by auto
  note st = step_listener [OF Cons.prems(1) ne]
  from Cons.IH [OF st(1) rest] obtain new where
    t: "l \<notin> set (eventTarget (run evs (step ev s)))"
    and n: "notified (run evs (step ev s)) = notified (step ev s) @ new"
    and o: "l \<notin> \<Union> (set ` set new)"
    by blast
  from st(2) show ?case
  proof
    assume "notified (step ev s) = notified s"
    with t n o show ?thesis by auto
  next
    assume "notified (step ev s) = notified s @ [eventTarget s]"
    with n have "notified (run (ev # evs) s) = notified s @ (eventTarget s # new)" by simp
    moreover have "l \<notin> \<Union> (set ` set (eventTarget s # new))" using o Cons.prems(1) by simp
    ultimately show ?thesis using t by auto
  qed
qed


section \<open>A reset that waits while callbacks arrive\<close>

text \<open>Chunks, \<^verbatim>\<open>pause()\<close> calls, completion callbacks and clock ticks that arrive while
  \<^verbatim>\<open>reset()\<close> waits for the context to close do not change its outcome: the state is
  \<^verbatim>\<open>idle\<close>, the queue and the scheduled sources are empty and \<open>nextStartTime\<close> is 0.\<close>

lemma step_while_resetting:
  assumes "internalState s = Resetting" and "waits_quietly e"
  shows "\<exists>c. step e s = s\<lparr>audioContext := c\<rparr>"
proof (cases e)
  case (Tick t)
  then show ?thesis by (auto simp: tick_def)
next
  case (AddChunk d r)
  with assms have "step e s = s" by (simp add: addChunk_def)
  then have "step e s = s\<lparr>audioContext := audioContext s\<rparr>" by simp
  then show ?thesis ..
next
  case Pause
  with assms have "step e s = s" by (simp add: pause_def)
  then have "step e s = s\<lparr>audioContext := audioContext s\<rparr>" by simp
  then show ?thesis ..
next
  case (SourceEnded source)
  with assms have "step e s = s" by (simp add: onended_def)
  then have "step e s = s\<lparr>audioContext := audioContext s\<rparr>" by simp
  then show ?thesis ..
qed (use assms in \<open>simp_all add: waits_quietly_def\<close>)

lemma run_while_resetting:
  assumes "internalState s = Resetting" and "\<forall>e\<in>set evs. waits_quietly e"
  shows "\<exists>c. run evs s = s\<lparr>audioContext := c\<rparr>"
  using assms
proof (induction evs arbitrary: s)
  case Nil
  have "run [] s = s\<lparr>audioContext := audioContext s\<rparr>" by simp
  then show ?case ..
next
  case (Cons e evs)
  then obtain c where c: "step e s = s\<lparr>audioContext := c\<rparr>"
    using step_while_resetting [of s e] by auto
  with Cons.prems have "internalState (step e s) = Resetting" by simp
  with Cons obtain c' where "run evs (step e s) = (step e s)\<lparr>audioContext := c'\<rparr>"
    by (metis list.set_intros(2))
  with c have "run (e # evs) s = s\<lparr>audioContext := c'\<rparr>" by simp
  then show ?case ..
qed

lemma run_append: "run (xs @ ys) p = run ys (run xs p)"
  by (induction xs arbitrary: p) simp_all

lemma reset_with_callbacks_in_between:
  assumes "audioContext s \<noteq> None" and "\<forall>e\<in>set evs. waits_quietly e"
  shows "internalState (run (ResetCall fresh # evs @ [ResetResumed fresh']) s) = Idle"
    and "audioBufferQueue (run (ResetCall fresh # evs @ [ResetResumed fresh']) s) = []"
    and "scheduledBufferSources (run (ResetCall fresh # evs @ [ResetResumed fresh']) s) = []"
    and "nextStartTime (run (ResetCall fresh # evs @ [ResetResumed fresh']) s) = 0"
proof -
  let ?w = "snd (reset_call fresh s)"
  have r: "internalState ?w = Resetting" using assms(1) by (rule reset_call_frame)
  have f: "scheduledBufferSources ?w = []" by (rule reset_call_frame)
  from run_while_resetting [OF r assms(2)] obtain c where
    c: "run evs ?w = ?w\<lparr>audioContext := c\<rparr>" ..
  have "run (ResetCall fresh # evs @ [ResetResumed fresh']) s = reset_finish fresh' (run evs ?w)"
    by (simp add: run_append)
  also have "\<dots> = reset_finish fresh' ?w"
    by (simp add: c reset_finish_def)
  finally have e: "run (ResetCall fresh # evs @ [ResetResumed fresh']) s = reset_finish fresh' ?w" .
  show "internalState (run (ResetCall fresh # evs @ [ResetResumed fresh']) s) = Idle"
    and "audioBufferQueue (run (ResetCall fresh # evs @ [ResetResumed fresh']) s) = []"
    and "scheduledBufferSources (run (ResetCall fresh # evs @ [ResetResumed fresh']) s) = []"
    and "nextStartTime (run (ResetCall fresh # evs @ [ResetResumed fresh']) s) = 0"
    unfolding e using f by (simp_all add: reset_finish_def reset_rest_def initAudioContext_def)
qed

section \<open>The concrete runs\<close>

lemma atob_short_example: "atob ''AAA='' = Inr [CHR 0x00, CHR 0x00]"
  by code_simp

lemma sint_word_cat:
  "sint (word_cat (hi :: 8 word) (lo :: 8 word) :: 16 word)
     = (if uint lo + 256 * uint hi < 32768 then uint lo + 256 * uint hi
        else uint lo + 256 * uint hi - 65536)"
  by (simp add: sint_16 uint_word_cat_bytes)

lemma signed_word_cat:
  "(signed (word_cat (hi :: 8 word) (lo :: 8 word) :: 16 word) :: real)
     = real_of_int (if uint lo + 256 * uint hi < 32768 then uint lo + 256 * uint hi
        else uint lo + 256 * uint hi - 65536)"
  by (subst of_int_sint [symmetric]) (simp only: sint_word_cat)

lemma running_at_simps [simp]:
  "currentTime (running_at t) = t" "ctx_state (running_at t) = Running"
  "closing (running_at t) = False" "upcoming (running_at t) = []"
  "rate_min (running_at t) = 8000" "rate_max (running_at t) = 96000"
  "currentTime_read (running_at t) = t" "after_read (running_at t) = running_at t"
  "(running_at t)\<lparr>currentTime := t'\<rparr> = running_at t'"
  "(running_at t)\<lparr>ctx_state := Suspended\<rparr> = suspended_at t"
  by (simp_all add: running_at_def suspended_at_def currentTime_read_def after_read_def)

lemma suspended_at_simps [simp]:
  "currentTime (suspended_at t) = t" "ctx_state (suspended_at t) = Suspended"
  "closing (suspended_at t) = False" "upcoming (suspended_at t) = []"
  "rate_min (suspended_at t) = 8000" "rate_max (suspended_at t) = 96000"
  "(suspended_at t)\<lparr>ctx_state := Running\<rparr> = running_at t"
  by (simp_all add: running_at_def suspended_at_def)

lemma closing_simps [simp]:
  "currentTime_read ((running_at t)\<lparr>closing := True\<rparr>) = t"
  "after_read ((running_at t)\<lparr>closing := True\<rparr>) = (running_at t)\<lparr>closing := True\<rparr>"
  by (simp_all add: running_at_def currentTime_read_def after_read_def)

lemma after_read_funpow_standing [simp]:
  "(after_read ^^ n) (running_at t) = running_at t"
  "(after_read ^^ n) ((running_at t)\<lparr>closing := True\<rparr>) = (running_at t)\<lparr>closing := True\<rparr>"
  by (induction n) simp_all

lemma convert_sample_chunk:
  "audioContext s = Some ctx \<Longrightarrow> rate_min ctx \<le> 16000 \<Longrightarrow> 16000 \<le> rate_max ctx \<Longrightarrow>
   convertBase64ToAudioBuffer s ''AQCA//8A'' 16000 = Inr sample_chunk"
  by (simp add: convert_even [OF _ atob_example] sample_chunk_def Uint8Array_of_def signed_word_cat)

lemma convert_short_chunk:
  "audioContext s = Some ctx \<Longrightarrow> rate_min ctx \<le> 16000 \<Longrightarrow> 16000 \<le> rate_max ctx \<Longrightarrow>
   convertBase64ToAudioBuffer s ''AAA='' 16000 = Inr short_chunk"
  by (simp add: convert_even [OF _ atob_short_example] short_chunk_def Uint8Array_of_def signed_word_cat)

lemma addChunk_sample_chunk:
  "audioContext s = Some ctx \<Longrightarrow> rate_min ctx \<le> 16000 \<Longrightarrow> 16000 \<le> rate_max ctx \<Longrightarrow>
   internalState s \<noteq> Resetting \<Longrightarrow>
   addChunk ''AQCA//8A'' 16000 s = (None, s\<lparr>audioBufferQueue := audioBufferQueue s @ [sample_chunk]\<rparr>)"
  by (simp add: addChunk_def convert_sample_chunk)

lemma addChunk_short_chunk:
  "audioContext s = Some ctx \<Longrightarrow> rate_min ctx \<le> 16000 \<Longrightarrow> 16000 \<le> rate_max ctx \<Longrightarrow>
   internalState s \<noteq> Resetting \<Longrightarrow>
   addChunk ''AAA='' 16000 s = (None, s\<lparr>audioBufferQueue := audioBufferQueue s @ [short_chunk]\<rparr>)"
  by (simp add: addChunk_def convert_short_chunk)

lemma duration_chunks: "duration sample_chunk = 3 / 16000" "duration short_chunk = 1 / 16000"
  by (simp_all add: duration_def sample_chunk_def short_chunk_def)

lemma schedule_pass_the:
  assumes "audioContext s \<noteq> None" and "internalState s = Playing"
  shows "scheduleNextBufferSource s =
           s\<lparr>audioContext :=
               Some ((after_read ^^ length (audioBufferQueue s)) (the (audioContext s))),
             audioBufferQueue := [],
             allocated := allocated s + length (audioBufferQueue s),
             nextStartTime := pass_end (nextStartTime s) (the (audioContext s)) (audioBufferQueue s),
             scheduledBufferSources :=
               scheduledBufferSources s
                 @ pass_nodes (allocated s) (nextStartTime s) (the (audioContext s))
                     (audioBufferQueue s)\<rparr>"
  using assms schedule_pass [of s "the (audioContext s)"] by auto

lemma listening_eq:
  "listening =
     \<lparr>audioContext = Some (running_at 0), audioBufferQueue = [], internalState = Idle,
      nextStartTime = 0, scheduledBufferSources = [], eventTarget = [7],
      allocated = 0, notified = [], console = []\<rparr>"
  by (simp add: listening_def addEventListener_def init_def initAudioContext_def)

lemma one_queued_eq:
  "one_queued =
     \<lparr>audioContext = Some (running_at 0), audioBufferQueue = [sample_chunk], internalState = Idle,
      nextStartTime = 0, scheduledBufferSources = [], eventTarget = [7],
      allocated = 0, notified = [], console = []\<rparr>"
  by (simp add: one_queued_def listening_eq addChunk_sample_chunk)

lemma one_playing_eq:
  "one_playing =
     \<lparr>audioContext = Some (running_at 0), audioBufferQueue = [], internalState = Playing,
      nextStartTime = 3 / 16000, scheduledBufferSources = [node0], eventTarget = [7],
      allocated = 1, notified = [], console = []\<rparr>"
  by (simp add: one_playing_def listening_eq addChunk_sample_chunk play_def Let_def
      schedule_pass_the duration_chunks node0_def)

lemma one_paused_eq:
  "one_paused =
     \<lparr>audioContext = Some (suspended_at 1), audioBufferQueue = [],
      internalState = Paused,
      nextStartTime = 3 / 16000, scheduledBufferSources = [node0], eventTarget = [7],
      allocated = 1, notified = [], console = []\<rparr>"
proof -
  have "one_paused = run [Tick 1, Pause] one_playing"
    by (simp add: one_paused_def one_playing_def)
  then show ?thesis
    by (simp only: one_playing_eq) (simp add: tick_def pause_def suspend_def)
qed

lemma reset_waiting_eq:
  "reset_waiting =
     \<lparr>audioContext = Some ((running_at 0)\<lparr>closing := True\<rparr>), audioBufferQueue = [short_chunk],
      internalState = Resetting,
      nextStartTime = 3 / 16000, scheduledBufferSources = [], eventTarget = [7],
      allocated = 1, notified = [], console = []\<rparr>"
proof -
  have "reset_waiting = run [AddChunk ''AAA='' 16000, ResetCall (running_at 0)] one_playing"
    by (simp add: reset_waiting_def one_playing_def)
  then show ?thesis
    by (simp only: one_playing_eq)
      (simp add: addChunk_short_chunk reset_call_def reset_begin_def close_def Let_def
        stop_and_disconnect_def node0_def)
qed

lemma play_while_reset_waits_eq:
  "step Play reset_waiting =
     \<lparr>audioContext = Some ((running_at 0)\<lparr>closing := True\<rparr>), audioBufferQueue = [],
      internalState = Playing,
      nextStartTime = 1 / 16000, scheduledBufferSources = [node1],
      eventTarget = [7], allocated = 2, notified = [], console = []\<rparr>"
  by (simp only: reset_waiting_eq)
    (simp add: play_def Let_def schedule_pass_the duration_chunks node1_def)

lemma reset_after_play_eq:
  "reset_after_play =
     \<lparr>audioContext = Some (running_at 0), audioBufferQueue = [], internalState = Idle,
      nextStartTime = 0, scheduledBufferSources = [node1], eventTarget = [],
      allocated = 2, notified = [], console = []\<rparr>"
proof -
  have "reset_after_play = run [ResetResumed (running_at 0)] (step Play reset_waiting)"
    by (simp add: reset_after_play_def)
  then show ?thesis
    by (simp only: play_while_reset_waits_eq)
      (simp add: reset_finish_def reset_rest_def initAudioContext_def)
qed

lemma stuck_after_reset_eq:
  "run [AddChunk ''AQCA//8A'' 16000, Play] reset_after_play =
     \<lparr>audioContext = Some (running_at 0), audioBufferQueue = [sample_chunk],
      internalState = Playing,
      nextStartTime = 0, scheduledBufferSources = [node1], eventTarget = [],
      allocated = 2, notified = [], console = []\<rparr>"
  by (simp only: reset_after_play_eq) (simp add: addChunk_sample_chunk play_def Let_def)

lemma ended_while_paused_eq:
  "step (SourceEnded node0) one_paused =
     \<lparr>audioContext = Some (suspended_at 1), audioBufferQueue = [],
      internalState = Ended,
      nextStartTime = 3 / 16000, scheduledBufferSources = [], eventTarget = [7],
      allocated = 1, notified = [[7]], console = []\<rparr>"
  by (simp only: one_paused_eq) (simp add: onended_alt without_def splice1_def)

lemma ended_while_playing_eq:
  "step (SourceEnded node0) one_playing =
     \<lparr>audioContext = Some (running_at 0), audioBufferQueue = [],
      internalState = Ended,
      nextStartTime = 3 / 16000, scheduledBufferSources = [], eventTarget = [7],
      allocated = 1, notified = [[7]], console = []\<rparr>"
  by (simp only: one_playing_eq) (simp add: onended_alt without_def splice1_def)

lemma after_reset_eq:
  "after_reset =
     \<lparr>audioContext = Some (running_at 0), audioBufferQueue = [], internalState = Idle,
      nextStartTime = 0, scheduledBufferSources = [], eventTarget = [],
      allocated = 0, notified = [], console = []\<rparr>"
  unfolding after_reset_def
  by (simp only: listening_eq)
    (simp add: reset_call_def reset_begin_def close_def reset_finish_def reset_rest_def
      initAudioContext_def Let_def)

lemma played_after_reset_eq:
  "run [AddChunk ''AQCA//8A'' 16000, Play, SourceEnded node0] after_reset =
     \<lparr>audioContext = Some (running_at 0), audioBufferQueue = [], internalState = Ended,
      nextStartTime = 3 / 16000, scheduledBufferSources = [], eventTarget = [],
      allocated = 1, notified = [[]], console = []\<rparr>"
  by (simp only: after_reset_eq)
    (simp add: addChunk_sample_chunk play_def Let_def schedule_pass_the
      duration_chunks node0_def onended_alt without_def splice1_def)

lemma ended_then_chunk_eq:
  "ended_then_chunk =
     \<lparr>audioContext = Some (running_at 1), audioBufferQueue = [short_chunk], internalState = Ended,
      nextStartTime = 3 / 16000, scheduledBufferSources = [], eventTarget = [7],
      allocated = 1, notified = [[7]], console = []\<rparr>"
proof -
  have "ended_then_chunk = run [Tick 1, SourceEnded node0, AddChunk ''AAA='' 16000] one_playing"
    by (simp add: ended_then_chunk_def one_playing_def)
  then show ?thesis
    by (simp only: one_playing_eq)
      (simp add: tick_def onended_alt without_def splice1_def addChunk_short_chunk)
qed

lemma quantum_later_eq:
  "quantum_later =
     \<lparr>audioContext = Some (running_at (128 / 44100)), audioBufferQueue = [],
      internalState = Playing,
      nextStartTime = 128 / 44100 + 1 / 16000,
      scheduledBufferSources =
        [\<lparr>node_id = 0, buffer = Some short_chunk, connected = True, start_at = Some 0,
          stopped = False\<rparr>,
         \<lparr>node_id = 1, buffer = Some short_chunk, connected = True,
          start_at = Some (128 / 44100), stopped = False\<rparr>],
      eventTarget = [], allocated = 2, notified = [], console = []\<rparr>"
proof -
  let ?c = "(running_at 0)\<lparr>upcoming := [0, 0, 128 / 44100]\<rparr>"
  have r: "rate_min ?c \<le> 16000" "16000 \<le> rate_max ?c" by simp_all
  have q: "run [AddChunk ''AAA='' 16000, AddChunk ''AAA='' 16000] (init ?c) =
     \<lparr>audioContext = Some ?c, audioBufferQueue = [short_chunk, short_chunk],
      internalState = Idle, nextStartTime = 0, scheduledBufferSources = [], eventTarget = [],
      allocated = 0, notified = [], console = []\<rparr>"
    using r by (simp add: init_def initAudioContext_def addChunk_short_chunk)
  have "quantum_later = run [Play] (run [AddChunk ''AAA='' 16000, AddChunk ''AAA='' 16000] (init ?c))"
    by (simp add: quantum_later_def)
  then show ?thesis
    by (simp only: q)
      (simp add: play_def Let_def schedule_pass_the duration_chunks running_at_def
        currentTime_read_def after_read_def numeral_2_eq_2)
qed

lemma three_idle_played:
  "map start_at (scheduledBufferSources (snd (play three_idle))) = [Some 0, Some (1 / 2), Some 1]"
  "audioBufferQueue (snd (play three_idle)) = []"
  "internalState (snd (play three_idle)) = Playing"
proof -
  have d: "duration half_second = 1 / 2"
    by (simp add: half_second_def duration_def)
  show "map start_at (scheduledBufferSources (snd (play three_idle))) = [Some 0, Some (1 / 2), Some 1]"
    "audioBufferQueue (snd (play three_idle)) = []"
    "internalState (snd (play three_idle)) = Playing"
    by (simp_all add: three_idle_def init_def initAudioContext_def play_def Let_def
        schedule_pass_the d)
qed

lemma three_idle_play_through:
  "notified (play_through three_idle) = [[]]"
  "internalState (play_through three_idle) = Ended"
  "audioBufferQueue (play_through three_idle) = []"
  "scheduledBufferSources (play_through three_idle) = []"
proof -
  have h: "audioContext three_idle = Some (running_at 0)" "internalState three_idle \<noteq> Playing"
    "scheduledBufferSources three_idle = []" "audioBufferQueue three_idle \<noteq> []"
    and n: "notified three_idle = []" "eventTarget three_idle = []"
    by (simp_all add: three_idle_def init_def initAudioContext_def)
  show "notified (play_through three_idle) = [[]]"
    "internalState (play_through three_idle) = Ended"
    "audioBufferQueue (play_through three_idle) = []"
    "scheduledBufferSources (play_through three_idle) = []"
    using play_through_once(2) [OF h]
    by (simp_all add: play_through_once(1) [OF h] n)
qed


section \<open>Play after the end\<close>

lemma after_read_ctx_state:
  "after_read (ctx\<lparr>ctx_state := x\<rparr>) = (after_read ctx)\<lparr>ctx_state := x\<rparr>"
  by (cases ctx) (simp add: after_read_def currentTime_read_def split: list.splits)

lemma second_read_later: "currentTime_read ctx \<le> currentTime_read (after_read ctx)"
  using currentTime_read_mono [of "after_read ctx"] by (simp add: currentTime_after_read)

text \<open>
  \<^bold>\<open>C10.\<close> On a player in state \<^verbatim>\<open>ended\<close> (with its audio context), \<^verbatim>\<open>play()\<close>
  succeeds and sets the state to \<^verbatim>\<open>playing\<close>; when the queue is not empty and no source
  is scheduled, it sets \<open>nextStartTime\<close> to the device time it reads and runs a
  scheduling pass from there: the whole queue is scheduled and the first source starts at
  the device time read for it, which is the device time of the call when the clock stands
  still. No \<^verbatim>\<open>reset()\<close> is needed in between.
\<close>

theorem play_from_ended:
  assumes "internalState s = Ended" and "audioContext s = Some ctx"
  shows "fst (play s) = None
       \<and> internalState (snd (play s)) = Playing
       \<and> (audioBufferQueue s \<noteq> [] \<and> scheduledBufferSources s = [] \<longrightarrow>
            snd (play s)
              = scheduleNextBufferSource
                  (s\<lparr>internalState := Playing,
                     audioContext := Some (after_read (if ctx_state ctx = Suspended
                                                       then ctx\<lparr>ctx_state := Running\<rparr> else ctx)),
                     nextStartTime := currentTime_read ctx\<rparr>)
          \<and> audioBufferQueue (snd (play s)) = []
          \<and> map buffer (scheduledBufferSources (snd (play s))) = map Some (audioBufferQueue s)
          \<and> start_at (hd (scheduledBufferSources (snd (play s))))
              = Some (currentTime_read (after_read ctx))
          \<and> currentTime ctx \<le> currentTime_read ctx
          \<and> currentTime_read ctx \<le> currentTime_read (after_read ctx)
          \<and> (upcoming ctx = [] \<longrightarrow>
                currentTime_read ctx = currentTime ctx
              \<and> start_at (hd (scheduledBufferSources (snd (play s)))) = Some (currentTime ctx)))"
proof -
  have np: "internalState s \<noteq> Playing" using assms by simp
  let ?c2 = "after_read (if ctx_state ctx = Suspended then ctx\<lparr>ctx_state := Running\<rparr> else ctx)"
  let ?s2 = "s\<lparr>internalState := Playing, audioContext := Some ?c2,
               nextStartTime := currentTime_read ctx\<rparr>"
  have c2: "audioContext ?s2 = Some ?c2"
    and p2: "internalState ?s2 = Playing" and q2: "audioBufferQueue ?s2 = audioBufferQueue s"
    and f2: "scheduledBufferSources ?s2 = scheduledBufferSources s"
    and n2: "nextStartTime ?s2 = currentTime_read ctx"
    by simp_all
  have r2: "currentTime_read ?c2 = currentTime_read (after_read ctx)"
    by (simp add: after_read_ctx_state)
  have pass: "scheduleNextBufferSource ?s2 = ?s2\<lparr>
             audioContext := Some ((after_read ^^ length (audioBufferQueue s)) ?c2),
             audioBufferQueue := [],
             allocated := allocated ?s2 + length (audioBufferQueue s),
             nextStartTime := pass_end (currentTime_read ctx) ?c2 (audioBufferQueue s),
             scheduledBufferSources :=
               scheduledBufferSources s
                 @ pass_nodes (allocated ?s2) (currentTime_read ctx) ?c2 (audioBufferQueue s)\<rparr>"
    using schedule_pass [OF c2 p2] by (simp only: q2 f2 n2)
  have 1: "fst (play s) = None" by (simp add: play_after [OF assms(2) np])
  have 2: "internalState (snd (play s)) = Playing"
    by (simp add: play_after [OF assms(2) np] schedule_frame)
  have 3: "snd (play s) = scheduleNextBufferSource ?s2"
    if "audioBufferQueue s \<noteq> []" "scheduledBufferSources s = []"
    using that by (simp add: play_after [OF assms(2) np])
  have 4: "audioBufferQueue (scheduleNextBufferSource ?s2) = []"
    by (simp only: pass) simp
  have 5: "map buffer (scheduledBufferSources (scheduleNextBufferSource ?s2))
      = map Some (audioBufferQueue s)"
    if "scheduledBufferSources s = []"
    using that by (simp only: pass) (simp add: buffer_pass_nodes)
  have 6: "start_at (hd (scheduledBufferSources (scheduleNextBufferSource ?s2)))
      = Some (currentTime_read (after_read ctx))"
    if "audioBufferQueue s \<noteq> []" "scheduledBufferSources s = []"
  proof -
    from that(1) obtain b q where q: "audioBufferQueue s = b # q" by (cases "audioBufferQueue s") auto
    have "start_at (hd (scheduledBufferSources (scheduleNextBufferSource ?s2)))
        = Some (max (currentTime_read ctx) (currentTime_read ?c2))"
      using that(2) by (simp only: pass q) simp
    also have "max (currentTime_read ctx) (currentTime_read ?c2) = currentTime_read (after_read ctx)"
      using second_read_later [of ctx] by (simp only: r2 max_absorb2)
    finally show ?thesis .
  qed
  have 7: "currentTime ctx \<le> currentTime_read ctx" by (rule currentTime_read_mono)
  have 8: "currentTime_read ctx \<le> currentTime_read (after_read ctx)" by (rule second_read_later)
  have 9: "currentTime_read ctx = currentTime ctx"
    "currentTime_read (after_read ctx) = currentTime ctx" if "upcoming ctx = []"
    using that by (simp_all add: standing_clock)
  show ?thesis
  proof (intro conjI impI)
    show "fst (play s) = None" by (rule 1)
    show "internalState (snd (play s)) = Playing" by (rule 2)
  next
    assume a: "audioBufferQueue s \<noteq> [] \<and> scheduledBufferSources s = []"
    then show "snd (play s) = scheduleNextBufferSource ?s2" using 3 by blast
    from a show "audioBufferQueue (snd (play s)) = []" using 3 4 by simp
    from a show "map buffer (scheduledBufferSources (snd (play s))) = map Some (audioBufferQueue s)"
      using 3 5 by simp
    from a show "start_at (hd (scheduledBufferSources (snd (play s))))
        = Some (currentTime_read (after_read ctx))"
      using 3 6 by simp
    show "currentTime ctx \<le> currentTime_read ctx" by (rule 7)
    show "currentTime_read ctx \<le> currentTime_read (after_read ctx)" by (rule 8)
  next
    assume a: "audioBufferQueue s \<noteq> [] \<and> scheduledBufferSources s = []"
      and u: "upcoming ctx = []"
    show "currentTime_read ctx = currentTime ctx" using u by (rule 9)
    from a show "start_at (hd (scheduledBufferSources (snd (play s)))) = Some (currentTime ctx)"
      using 3 6 9(2) [OF u] by simp
  qed
qed

text \<open>A chunk that arrives after the first one played to its end (device time 1) is
  scheduled at device time 1 by the next \<^verbatim>\<open>play()\<close>.\<close>

theorem play_from_ended_witness:
  "internalState ended_then_chunk = Ended
   \<and> fst (play ended_then_chunk) = None
   \<and> internalState (snd (play ended_then_chunk)) = Playing
   \<and> audioBufferQueue (snd (play ended_then_chunk)) = []
   \<and> map buffer (scheduledBufferSources (snd (play ended_then_chunk))) = [Some short_chunk]
   \<and> start_at (hd (scheduledBufferSources (snd (play ended_then_chunk)))) = Some 1"
proof -
  have e: "internalState ended_then_chunk = Ended"
    and c: "audioContext ended_then_chunk = Some (running_at 1)"
    and q: "audioBufferQueue ended_then_chunk = [short_chunk]"
    and f: "scheduledBufferSources ended_then_chunk = []"
    by (simp_all only: ended_then_chunk_eq) simp_all
  have a: "audioBufferQueue ended_then_chunk \<noteq> [] \<and> scheduledBufferSources ended_then_chunk = []"
    by (simp add: q f)
  have u: "upcoming (running_at 1) = []" by simp
  from play_from_ended [OF e c] a u
  have "fst (play ended_then_chunk) = None"
    and "internalState (snd (play ended_then_chunk)) = Playing"
    and "audioBufferQueue (snd (play ended_then_chunk)) = []"
    and "map buffer (scheduledBufferSources (snd (play ended_then_chunk)))
          = map Some (audioBufferQueue ended_then_chunk)"
    and "start_at (hd (scheduledBufferSources (snd (play ended_then_chunk))))
          = Some (currentTime (running_at 1))"
    by blast+
  with e show ?thesis by (simp add: q)
qed

section \<open>The ended event\<close>

text \<open>
  \<^bold>\<open>C5\<close> (as amended). In a play-through (\<^verbatim>\<open>play()\<close> on a player that is not playing,
  with a non-empty queue and nothing scheduled, followed by the completions of the sources
  it scheduled, in order) \<^verbatim>\<open>ended\<close> is dispatched exactly once, at the last completion,
  and leaves the state \<^verbatim>\<open>ended\<close>, the queue and the scheduled sources empty. In any
  step of a run, \<^verbatim>\<open>ended\<close> is dispatched only by a completion callback after which the
  queue and the scheduled sources are both empty, and the state becomes \<^verbatim>\<open>ended\<close> only
  by such a callback, run in a state other than \<^verbatim>\<open>resetting\<close> (not only in state
  \<^verbatim>\<open>playing\<close>). \<^verbatim>\<open>pause()\<close> and \<^verbatim>\<open>reset()\<close> (its call and its continuation) dispatch
  nothing and never set the state to \<^verbatim>\<open>ended\<close>.
\<close>

theorem ended_event_only_at_last_completion:
  "(audioContext p = Some ctx \<and> internalState p \<noteq> Playing
      \<and> scheduledBufferSources p = [] \<and> audioBufferQueue p \<noteq> [] \<longrightarrow>
        notified (play_through p) = notified p @ [eventTarget p]
      \<and> internalState (play_through p) = Ended
      \<and> audioBufferQueue (play_through p) = []
      \<and> scheduledBufferSources (play_through p) = []
      \<and> (\<forall>k < length (scheduledBufferSources (snd (play p))).
            notified (run (map SourceEnded (take k (scheduledBufferSources (snd (play p)))))
                       (snd (play p))) = notified p))
   \<and> (notified (step ev s) \<noteq> notified s \<longrightarrow>
        (\<exists>source. ev = SourceEnded source) \<and> internalState s \<noteq> Resetting
      \<and> notified (step ev s) = notified s @ [eventTarget s]
      \<and> internalState (step ev s) = Ended
      \<and> audioBufferQueue (step ev s) = [] \<and> scheduledBufferSources (step ev s) = [])
   \<and> (internalState (step ev s) = Ended \<and> internalState s \<noteq> Ended \<longrightarrow>
        (\<exists>source. ev = SourceEnded source) \<and> internalState s \<noteq> Resetting
      \<and> notified (step ev s) = notified s @ [eventTarget s]
      \<and> audioBufferQueue (step ev s) = [] \<and> scheduledBufferSources (step ev s) = [])
   \<and> notified (snd (pause s)) = notified s
   \<and> (internalState (snd (pause s)) = Paused \<or> internalState (snd (pause s)) = internalState s)
   \<and> notified (reset_begin s) = notified s \<and> internalState (reset_begin s) = Resetting
   \<and> notified (reset_finish fresh s) = notified s \<and> internalState (reset_finish fresh s) = Idle
   \<and> notified (reset_rest fresh s) = notified s \<and> internalState (reset_rest fresh s) = Idle
   \<and> notified (snd (reset_call fresh s)) = notified s
   \<and> (internalState (snd (reset_call fresh s)) = Resetting
        \<or> internalState (snd (reset_call fresh s)) = Idle)"
proof -
  have a: "notified (play_through p) = notified p @ [eventTarget p]
      \<and> internalState (play_through p) = Ended
      \<and> audioBufferQueue (play_through p) = []
      \<and> scheduledBufferSources (play_through p) = []
      \<and> (\<forall>k < length (scheduledBufferSources (snd (play p))).
            notified (run (map SourceEnded (take k (scheduledBufferSources (snd (play p)))))
                       (snd (play p))) = notified p)"
    if h: "audioContext p = Some ctx" "internalState p \<noteq> Playing"
      "scheduledBufferSources p = []" "audioBufferQueue p \<noteq> []"
    using play_through_once(1,2) [OF h] play_through_once(5) [OF h] by simp
  have b: "(\<exists>source. ev = SourceEnded source) \<and> internalState s \<noteq> Resetting
      \<and> notified (step ev s) = notified s @ [eventTarget s]
      \<and> internalState (step ev s) = Ended
      \<and> audioBufferQueue (step ev s) = [] \<and> scheduledBufferSources (step ev s) = []"
    if "notified (step ev s) \<noteq> notified s"
    using step_notified [of ev s] that by auto
  have c: "(\<exists>source. ev = SourceEnded source) \<and> internalState s \<noteq> Resetting
      \<and> notified (step ev s) = notified s @ [eventTarget s]
      \<and> audioBufferQueue (step ev s) = [] \<and> scheduledBufferSources (step ev s) = []"
    if "internalState (step ev s) = Ended" "internalState s \<noteq> Ended"
    using step_to_ended [OF that] by auto
  from a b c pause_frame(1,4) [of s] reset_frame(1,2) [of s] reset_frame(5,6,8,9) [of fresh s]
    reset_call_frame(1,2) [of fresh s]
  show ?thesis by blast
qed

theorem ended_event_only_at_last_completion_witness:
  "notified (play_through one_queued) = [[7]]
   \<and> internalState (play_through one_queued) = Ended
   \<and> audioBufferQueue (play_through one_queued) = []
   \<and> scheduledBufferSources (play_through one_queued) = []
   \<and> internalState one_playing = Playing
   \<and> notified (step (SourceEnded node0) one_playing) = [[7]]
   \<and> internalState (step (SourceEnded node0) one_playing) = Ended"
proof -
  have p: "audioContext one_queued = Some (running_at 0) \<and> internalState one_queued \<noteq> Playing
      \<and> scheduledBufferSources one_queued = [] \<and> audioBufferQueue one_queued \<noteq> []"
    and pn: "notified one_queued = []" "eventTarget one_queued = [7]"
    by (simp_all only: one_queued_eq) simp_all
  have s: "internalState one_playing = Playing" "notified one_playing = []"
    "eventTarget one_playing = [7]"
    by (simp_all only: one_playing_eq) simp_all
  have fired: "notified (step (SourceEnded node0) one_playing) \<noteq> notified one_playing"
    by (simp only: ended_while_playing_eq) (simp only: one_playing_eq, simp)
  have ended: "internalState (step (SourceEnded node0) one_playing) = Ended
      \<and> internalState one_playing \<noteq> Ended"
    by (simp only: ended_while_playing_eq) (simp only: one_playing_eq, simp)
  from ended_event_only_at_last_completion
    [of one_queued "running_at 0" "SourceEnded node0" one_playing "running_at 0"] p fired ended
  have "notified (play_through one_queued) = notified one_queued @ [eventTarget one_queued]"
    and "internalState (play_through one_queued) = Ended"
    and "audioBufferQueue (play_through one_queued) = []"
    and "scheduledBufferSources (play_through one_queued) = []"
    and "notified (step (SourceEnded node0) one_playing) = notified one_playing @ [eventTarget one_playing]"
    and "internalState (step (SourceEnded node0) one_playing) = Ended"
    by blast+
  then show ?thesis by (simp add: pn s)
qed

text \<open>The claim as stated (the state becomes \<^verbatim>\<open>ended\<close> only from state
  \<^verbatim>\<open>playing\<close>) fails when \<^verbatim>\<open>pause()\<close> is called after the last source finished
  on the device and before its completion callback runs: the callback only checks for
  \<^verbatim>\<open>resetting\<close>, so the paused player becomes \<^verbatim>\<open>ended\<close> and listener 7 is
  notified.\<close>

theorem ended_event_counterexample:
  "internalState one_paused = Paused
   \<and> internalState one_paused \<noteq> Playing
   \<and> scheduledBufferSources one_paused = [node0]
   \<and> internalState (step (SourceEnded node0) one_paused) = Ended
   \<and> notified (step (SourceEnded node0) one_paused) = [[7]]"
  by (simp only: ended_while_paused_eq) (simp only: one_paused_eq, simp)

section \<open>The scheduler clock\<close>

text \<open>Which steps can lower \<open>nextStartTime\<close> at all, when no queued buffer has a negative
  duration: a \<^verbatim>\<open>play()\<close> call that the guard on \<^verbatim>\<open>playing\<close> lets through, with no
  source scheduled and a non-empty queue, and the end of a \<^verbatim>\<open>reset()\<close>.\<close>

lemma nextStartTime_lowered_only_by_play_or_reset:
  assumes "\<forall>b\<in>set (audioBufferQueue s). 0 \<le> duration b"
    and "nextStartTime (step ev s) < nextStartTime s"
  shows "(ev = Play \<and> internalState s \<noteq> Playing \<and> scheduledBufferSources s = []
            \<and> audioBufferQueue s \<noteq> [])
       \<or> (\<exists>fresh. ev = ResetResumed fresh)
       \<or> (\<exists>fresh. ev = ResetCall fresh \<and> audioContext s = None)"
proof (cases ev)
  case (SourceEnded source)
  have "nextStartTime s \<le> nextStartTime (scheduleNextBufferSource
      (s\<lparr>scheduledBufferSources := without source (scheduledBufferSources s)\<rparr>))"
    using schedule_nextStartTime_mono
      [of "s\<lparr>scheduledBufferSources := without source (scheduledBufferSources s)\<rparr>"] assms(1)
    by simp
  with assms(2) SourceEnded show ?thesis by (auto simp: onended_alt split: if_splits)
next
  case Play
  show ?thesis
  proof (rule ccontr)
    assume n: "\<not> ?thesis"
    have "nextStartTime (snd (play s)) = nextStartTime s"
    proof (cases "audioContext s")
      case None
      then show ?thesis by (simp add: play_def)
    next
      case (Some ctx)
      show ?thesis
      proof (cases "internalState s = Playing")
        case True
        with Some show ?thesis by (simp add: play_def)
      next
        case False
        with n Play have "\<not> (scheduledBufferSources s = [] \<and> audioBufferQueue s \<noteq> [])" by simp
        then show ?thesis by (auto simp: play_after [OF Some False])
      qed
    qed
    with assms(2) Play show False by simp
  qed
next
  case (ResetCall fresh)
  with assms(2) reset_call_frame(5) [of s fresh] show ?thesis
    by (cases "audioContext s") auto
qed (use assms(2) in \<open>auto simp: pause_frame addChunk_frame reset_frame addEventListener_def
    removeEventListener_def tick_def split: option.splits if_splits\<close>)

text \<open>
  \<^bold>\<open>C6.\<close> \<open>nextStartTime\<close> is to decrease only on a \<^verbatim>\<open>play()\<close> that leaves state
  \<^verbatim>\<open>idle\<close> with nothing scheduled, and on \<^verbatim>\<open>reset()\<close>. The code breaks this:
  \<^verbatim>\<open>addChunk\<close> and the completion callback refuse to act in state \<^verbatim>\<open>resetting\<close>, but
  \<^verbatim>\<open>play()\<close> has no such guard. Called while \<^verbatim>\<open>reset()\<close> waits for the context to
  close (the state is \<^verbatim>\<open>resetting\<close>, the scheduled sources were just dropped, the queue
  still holds the short chunk), it re-bases \<open>nextStartTime\<close> to the device time, and
  \<open>nextStartTime\<close> falls from 3/16000 to 1/16000.
\<close>

theorem play_while_resetting_lowers_nextStartTime:
  "internalState reset_waiting = Resetting
   \<and> scheduledBufferSources reset_waiting = []
   \<and> nextStartTime reset_waiting = 3 / 16000
   \<and> nextStartTime (step Play reset_waiting) = 1 / 16000
   \<and> nextStartTime (step Play reset_waiting) < nextStartTime reset_waiting"
  by (simp only: play_while_reset_waits_eq) (simp only: reset_waiting_eq, simp)

section \<open>Reset\<close>

text \<open>
  \<^bold>\<open>C3.\<close> \<^verbatim>\<open>reset()\<close> is to end in state \<^verbatim>\<open>idle\<close> with an empty queue, no scheduled
  source and \<open>nextStartTime = 0\<close>, whatever the state before. The code breaks this:
  it empties the list of scheduled sources before it waits for the context to close and not
  again after, and \<^verbatim>\<open>play()\<close> is not refused in state \<^verbatim>\<open>resetting\<close>. When
  \<^verbatim>\<open>play()\<close> is called during the wait, the reset ends in state \<^verbatim>\<open>idle\<close> with an
  empty queue and \<open>nextStartTime = 0\<close>, but with the source that this \<^verbatim>\<open>play()\<close>
  scheduled still in the list.
\<close>

theorem reset_with_play_in_between_keeps_source:
  "internalState reset_waiting = Resetting
   \<and> internalState reset_after_play = Idle
   \<and> audioBufferQueue reset_after_play = []
   \<and> nextStartTime reset_after_play = 0
   \<and> scheduledBufferSources reset_after_play = [node1]
   \<and> scheduledBufferSources reset_after_play \<noteq> []"
  by (simp only: reset_after_play_eq) (simp only: reset_waiting_eq, simp)

text \<open>After that, a new chunk and \<^verbatim>\<open>play()\<close> schedule nothing: \<^verbatim>\<open>play()\<close> starts a
  pass only when no source is scheduled.\<close>

lemma stuck_after_reset:
  "audioBufferQueue (run [AddChunk ''AQCA//8A'' 16000, Play] reset_after_play) = [sample_chunk]
   \<and> scheduledBufferSources (run [AddChunk ''AQCA//8A'' 16000, Play] reset_after_play) = [node1]"
  by (simp only: stuck_after_reset_eq) simp

section \<open>Gaps inside a pass\<close>

text \<open>The claim of C1 as stated (each buffer starts exactly where the one before it ends)
  fails when the device clock passes that point inside the pass: with two chunks of 1/16000
  s and a clock that moves by one render quantum between the two calls of the pass, the
  second buffer starts at 128/44100, not at 1/16000.\<close>

theorem scheduleNextBufferSource_gap_counterexample:
  "map buffer (scheduledBufferSources quantum_later) = [Some short_chunk, Some short_chunk]
   \<and> map start_at (scheduledBufferSources quantum_later) = [Some 0, Some (128 / 44100)]
   \<and> duration short_chunk = 1 / 16000
   \<and> (128 / 44100 :: real) \<noteq> 0 + 1 / 16000"
  by (simp only: quantum_later_eq) (simp add: duration_chunks)

section \<open>Listeners and reset\<close>

text \<open>
  \<^bold>\<open>C9.\<close> A \<^verbatim>\<open>reset()\<close> leaves a new \<^verbatim>\<open>EventTarget\<close> without listeners, and in
  every run after it in which listener \<open>l\<close> is not registered again, no \<^verbatim>\<open>ended\<close>
  event notifies \<open>l\<close>. This holds wherever a \<^verbatim>\<open>reset()\<close> ends: after its continuation
  (\<open>reset_finish\<close>), whatever happened to the player while it waited, and after its last
  lines run at the call (\<open>reset_rest\<close>).
\<close>

theorem reset_drops_listeners:
  assumes "AddEventListener l \<notin> set evs"
  shows "eventTarget (reset_rest fresh s) = []
       \<and> l \<notin> \<Union> (set ` set (notified_since (reset_rest fresh s)
                                  (run evs (reset_rest fresh s))))
       \<and> eventTarget (reset_finish fresh s) = []
       \<and> l \<notin> \<Union> (set ` set (notified_since (reset_finish fresh s)
                                  (run evs (reset_finish fresh s))))"
proof -
  have since: "l \<notin> \<Union> (set ` set (notified_since r (run evs r)))" if "eventTarget r = []" for r
  proof -
    from that have "l \<notin> set (eventTarget r)" by simp
    from run_listener [OF this assms] obtain new where
      "notified (run evs r) = notified r @ new" "l \<notin> \<Union> (set ` set new)" by blast
    then show ?thesis by (simp add: notified_since_def)
  qed
  have 1: "eventTarget (reset_rest fresh s) = []" and 2: "eventTarget (reset_finish fresh s) = []"
    by (rule reset_frame)+
  from 1 2 since [OF 1] since [OF 2] show ?thesis by blast
qed

text \<open>Listener 7 was registered before the reset; the play-through after the reset
  dispatches \<^verbatim>\<open>ended\<close> once, to nobody.\<close>

theorem reset_drops_listeners_witness:
  "eventTarget listening = [7]
   \<and> eventTarget after_reset = []
   \<and> notified_since after_reset
       (run [AddChunk ''AQCA//8A'' 16000, Play, SourceEnded node0] after_reset) = [[]]
   \<and> 7 \<notin> \<Union> (set ` set (notified_since after_reset
       (run [AddChunk ''AQCA//8A'' 16000, Play, SourceEnded node0] after_reset)))"
proof -
  have h: "AddEventListener 7 \<notin> set [AddChunk ''AQCA//8A'' 16000, Play, SourceEnded node0]"
    by simp
  have e: "eventTarget listening = [7]" by (simp only: listening_eq) simp
  have n: "notified_since after_reset
       (run [AddChunk ''AQCA//8A'' 16000, Play, SourceEnded node0] after_reset) = [[]]"
    unfolding notified_since_def by (simp only: played_after_reset_eq) (simp add: after_reset_eq)
  have a: "after_reset
      = reset_finish (running_at 0) (snd (reset_call (running_at 0) listening))"
    by (simp add: after_reset_def)
  from reset_drops_listeners
    [OF h, of "running_at 0" "snd (reset_call (running_at 0) listening)"]
  have "eventTarget after_reset = []"
    and "7 \<notin> \<Union> (set ` set (notified_since after_reset
       (run [AddChunk ''AQCA//8A'' 16000, Play, SourceEnded node0] after_reset)))"
    unfolding a by blast+
  with e n show ?thesis by blast
qed

end
